theory Spec2Isabelle
  imports Complex_Main "HOL-Library.Char_ord" "HOL-Library.AList"
begin

section \<open>JavaScript values\<close>

text \<open>
  The values that flow through the library.  A JSON tree is the structural content of a
  value; an object additionally has an identity (a reference) and a constructor.  Numbers
  are exact rationals together with the three special doubles; rounding to a double is not
  modelled and no result below depends on it.  Functions and symbols are not among the
  values.
\<close>

datatype json = JsNull | JsBool bool | JsNum rat | JsStr string
  | JsArr "json list" | JsObj "(string \<times> json) list"

datatype error = SyntaxError | TypeError

text \<open>
  The constructors that \<open>parseAttribute\<close> distinguishes in its \<open>switch\<close>, the two
  constructors of literals (\<open>Object\<close>, \<open>Array\<close>) and any other class, named by a number.
\<close>

datatype converter = CJSON | CBoolean | CURL | CDate | CString | CNumber | CBigInt
  | CObject | CArray | CClass nat

datatype jsnum = Fin rat | NaN | PosInf | NegInf

datatype jsval = JUndefined | JNull | JBool bool | JNum jsnum | JStr string | JBigInt int
  | JObj nat converter json

text \<open>Truthiness, as \<open>!x\<close>, \<open>x && y\<close> and \<open>x || y\<close> test it.\<close>

fun truthy :: "jsval \<Rightarrow> bool" where
  "truthy JUndefined = False"
| "truthy JNull = False"
| "truthy (JBool b) = b"
| "truthy (JNum (Fin q)) = (q \<noteq> 0)"
| "truthy (JNum NaN) = False"
| "truthy (JNum PosInf) = True"
| "truthy (JNum NegInf) = True"
| "truthy (JStr s) = (s \<noteq> [])"
| "truthy (JBigInt i) = (i \<noteq> 0)"
| "truthy (JObj r c d) = True"

text \<open>
  Strict equality \<open>===\<close>: primitives by value, \<open>NaN\<close> equal to nothing, objects by
  reference only.
\<close>

fun strict_eq :: "jsval \<Rightarrow> jsval \<Rightarrow> bool" where
  "strict_eq JUndefined JUndefined = True"
| "strict_eq JNull JNull = True"
| "strict_eq (JBool a) (JBool b) = (a = b)"
| "strict_eq (JNum x) (JNum y) = (x \<noteq> NaN \<and> x = y)"
| "strict_eq (JStr s) (JStr t) = (s = t)"
| "strict_eq (JBigInt i) (JBigInt j) = (i = j)"
| "strict_eq (JObj r c d) (JObj r' c' d') = (r = r')"
| "strict_eq _ _ = False"

text \<open>The constructor of a value (\<open>value.constructor\<close>); \<open>undefined\<close> and \<open>null\<close> have none.\<close>

fun constructor_of :: "jsval \<Rightarrow> converter option" where
  "constructor_of JUndefined = None"
| "constructor_of JNull = None"
| "constructor_of (JBool b) = Some CBoolean"
| "constructor_of (JNum x) = Some CNumber"
| "constructor_of (JStr s) = Some CString"
| "constructor_of (JBigInt i) = Some CBigInt"
| "constructor_of (JObj r c d) = Some c"

section \<open>JSON.parse\<close>

text \<open>
  The runtime's \<open>JSON.parse\<close> (ECMA-404): a lexer over the characters and a stack
  automaton over the tokens, both by structural recursion.  Strings are lists of 8-bit
  characters, so a \<open>\uXXXX\<close> escape denotes its code unit modulo 256.
\<close>

definition is_ws :: "char \<Rightarrow> bool" where
  "is_ws c = (c = CHR 0x20 \<or> c = CHR 0x09 \<or> c = CHR 0x0A \<or> c = CHR 0x0D)"

definition is_digit :: "char \<Rightarrow> bool" where
  "is_digit c = (CHR ''0'' \<le> c \<and> c \<le> CHR ''9'')"

definition digit_val :: "char \<Rightarrow> nat" where
  "digit_val c = of_char c - 48"

definition hex_val :: "char \<Rightarrow> nat option" where
  "hex_val c =
     (if is_digit c then Some (digit_val c)
      else if CHR ''a'' \<le> c \<and> c \<le> CHR ''f'' then Some (of_char c - 87)
      else if CHR ''A'' \<le> c \<and> c \<le> CHR ''F'' then Some (of_char c - 55)
      else None)"

definition escape_char :: "char \<Rightarrow> char option" where
  "escape_char c =
     (if c = CHR 0x22 \<or> c = CHR 0x5C \<or> c = CHR ''/'' then Some c
      else if c = CHR ''b'' then Some (CHR 0x08)
      else if c = CHR ''f'' then Some (CHR 0x0C)
      else if c = CHR ''n'' then Some (CHR 0x0A)
      else if c = CHR ''r'' then Some (CHR 0x0D)
      else if c = CHR ''t'' then Some (CHR 0x09)
      else None)"

text \<open>
  The characters of a string literal after its opening quote: the decoded string and what
  follows the closing quote.  A raw control character, an unknown escape and a missing
  closing quote are syntax errors.
\<close>

datatype smode = Plain | Escaped | Hex nat nat

fun json_chars :: "smode \<Rightarrow> string \<Rightarrow> (string \<times> string) option" where
  "json_chars m [] = None"
| "json_chars Plain (c # cs) =
     (if c = CHR 0x22 then Some ([], cs)
      else if c = CHR 0x5C then json_chars Escaped cs
      else if (of_char c :: nat) < 32 then None
      else map_option (apfst ((#) c)) (json_chars Plain cs))"
| "json_chars Escaped (c # cs) =
     (if c = CHR ''u'' then json_chars (Hex 3 0) cs
      else (case escape_char c of
              None \<Rightarrow> None
            | Some e \<Rightarrow> map_option (apfst ((#) e)) (json_chars Plain cs)))"
| "json_chars (Hex n acc) (c # cs) =
     (case hex_val c of
        None \<Rightarrow> None
      | Some h \<Rightarrow>
          (case n of
             0 \<Rightarrow> map_option (apfst ((#) (char_of (acc * 16 + h)))) (json_chars Plain cs)
           | Suc k \<Rightarrow> json_chars (Hex k (acc * 16 + h)) cs))"

definition digits_val :: "string \<Rightarrow> nat" where
  "digits_val ds = foldl (\<lambda>a c. a * 10 + digit_val c) 0 ds"

definition lex_int :: "string \<Rightarrow> (string \<times> string) option" where
  "lex_int s =
     (case s of
        [] \<Rightarrow> None
      | c # cs \<Rightarrow>
          if c = CHR ''0'' then Some ([c], cs)
          else if is_digit c then Some (takeWhile is_digit s, dropWhile is_digit s)
          else None)"

definition lex_frac :: "string \<Rightarrow> string \<times> string" where
  "lex_frac s =
     (case s of
        c # cs \<Rightarrow>
          if c = CHR ''.'' \<and> takeWhile is_digit cs \<noteq> []
          then (takeWhile is_digit cs, dropWhile is_digit cs) else ([], s)
      | [] \<Rightarrow> ([], s))"

definition lex_exp :: "string \<Rightarrow> int \<times> string" where
  "lex_exp s =
     (case s of
        c # cs \<Rightarrow>
          if c = CHR ''e'' \<or> c = CHR ''E'' then
            (let (neg, ds) = (case cs of
                                d # r \<Rightarrow> if d = CHR ''-'' then (True, r)
                                         else if d = CHR ''+'' then (False, r) else (False, cs)
                              | [] \<Rightarrow> (False, cs))
             in if takeWhile is_digit ds \<noteq> []
                then ((if neg then - int (digits_val (takeWhile is_digit ds))
                       else int (digits_val (takeWhile is_digit ds))), dropWhile is_digit ds)
                else (0, s))
          else (0, s)
      | [] \<Rightarrow> (0, s))"

definition pow10 :: "int \<Rightarrow> rat" where
  "pow10 e = (if 0 \<le> e then 10 ^ nat e else 1 / 10 ^ nat (- e))"

definition lex_number :: "string \<Rightarrow> (rat \<times> string) option" where
  "lex_number s =
     (let (neg, s1) = (case s of c # cs \<Rightarrow> if c = CHR ''-'' then (True, cs) else (False, s)
                               | [] \<Rightarrow> (False, s))
      in case lex_int s1 of
           None \<Rightarrow> None
         | Some (ip, s2) \<Rightarrow>
             (let (fp, s3) = lex_frac s2; (e, s4) = lex_exp s3;
                  m = of_nat (digits_val ip) + of_nat (digits_val fp) / 10 ^ length fp
              in Some ((if neg then - m else m) * pow10 e, s4)))"

datatype token = TLBrace | TRBrace | TLBrack | TRBrack | TColon | TComma
  | TStr string | TNum rat | TTrue | TFalse | TNull

definition lex_word :: "string \<Rightarrow> string \<Rightarrow> token \<Rightarrow> (token \<times> string) option" where
  "lex_word w s t = (if take (length w) s = w then Some (t, drop (length w) s) else None)"

definition lex_token :: "string \<Rightarrow> (token \<times> string) option" where
  "lex_token s =
     (case s of
        [] \<Rightarrow> None
      | c # cs \<Rightarrow>
          if c = CHR ''{'' then Some (TLBrace, cs)
          else if c = CHR ''}'' then Some (TRBrace, cs)
          else if c = CHR ''['' then Some (TLBrack, cs)
          else if c = CHR '']'' then Some (TRBrack, cs)
          else if c = CHR '':'' then Some (TColon, cs)
          else if c = CHR '','' then Some (TComma, cs)
          else if c = CHR 0x22 then map_option (apfst TStr) (json_chars Plain cs)
          else if c = CHR ''t'' then lex_word ''true'' s TTrue
          else if c = CHR ''f'' then lex_word ''false'' s TFalse
          else if c = CHR ''n'' then lex_word ''null'' s TNull
          else map_option (apfst TNum) (lex_number s))"

text \<open>
  Every token is at least one character long, so the test on the lengths below never
  fails (\<open>tokenize_unguarded\<close>); it is there to make the recursion visibly well-founded.
\<close>

fun tokenize :: "string \<Rightarrow> token list option" where
  "tokenize [] = Some []"
| "tokenize (c # cs) =
     (if is_ws c then tokenize cs
      else (case lex_token (c # cs) of
              None \<Rightarrow> None
            | Some (t, rest) \<Rightarrow>
                if length rest < length (c # cs)
                then map_option ((#) t) (tokenize rest) else None))"

text \<open>
  The automaton: what may come next, and the open arrays and objects.  A repeated key of
  an object keeps its first position and takes the last value.
\<close>

datatype pstate = PValue | PArrStart | PArrNext | PObjStart | PObjNext | PKey | PColon
  | PDone json

datatype frame = FArr "json list" | FObj "(string \<times> json) list"
  | FObjV "(string \<times> json) list" string

fun complete :: "json \<Rightarrow> frame list \<Rightarrow> (pstate \<times> frame list) option" where
  "complete v [] = Some (PDone v, [])"
| "complete v (FArr acc # st) = Some (PArrNext, FArr (acc @ [v]) # st)"
| "complete v (FObjV acc k # st) = Some (PObjNext, FObj (AList.update k v acc) # st)"
| "complete v (FObj acc # st) = None"

fun scalar :: "token \<Rightarrow> json option" where
  "scalar (TStr s) = Some (JsStr s)"
| "scalar (TNum q) = Some (JsNum q)"
| "scalar TTrue = Some (JsBool True)"
| "scalar TFalse = Some (JsBool False)"
| "scalar TNull = Some JsNull"
| "scalar _ = None"

definition open_value :: "frame list \<Rightarrow> token \<Rightarrow> (pstate \<times> frame list) option" where
  "open_value st t =
     (if t = TLBrack then Some (PArrStart, FArr [] # st)
      else if t = TLBrace then Some (PObjStart, FObj [] # st)
      else (case scalar t of None \<Rightarrow> None | Some v \<Rightarrow> complete v st))"

definition close_array :: "frame list \<Rightarrow> (pstate \<times> frame list) option" where
  "close_array st = (case st of FArr acc # st' \<Rightarrow> complete (JsArr acc) st' | _ \<Rightarrow> None)"

definition close_object :: "frame list \<Rightarrow> (pstate \<times> frame list) option" where
  "close_object st = (case st of FObj acc # st' \<Rightarrow> complete (JsObj acc) st' | _ \<Rightarrow> None)"

definition read_key :: "frame list \<Rightarrow> token \<Rightarrow> (pstate \<times> frame list) option" where
  "read_key st t =
     (case (st, t) of
        (FObj acc # st', TStr k) \<Rightarrow> Some (PColon, FObjV acc k # st')
      | _ \<Rightarrow> None)"

fun step_token :: "pstate \<Rightarrow> frame list \<Rightarrow> token \<Rightarrow> (pstate \<times> frame list) option" where
  "step_token PValue st t = open_value st t"
| "step_token PArrStart st t = (if t = TRBrack then close_array st else open_value st t)"
| "step_token PArrNext st t =
     (if t = TComma then Some (PValue, st)
      else if t = TRBrack then close_array st else None)"
| "step_token PObjStart st t = (if t = TRBrace then close_object st else read_key st t)"
| "step_token PKey st t = read_key st t"
| "step_token PColon st t = (if t = TColon then Some (PValue, st) else None)"
| "step_token PObjNext st t =
     (if t = TComma then Some (PKey, st)
      else if t = TRBrace then close_object st else None)"
| "step_token (PDone v) st t = None"

fun parse_tokens :: "pstate \<Rightarrow> frame list \<Rightarrow> token list \<Rightarrow> json option" where
  "parse_tokens p st [] = (case p of PDone v \<Rightarrow> Some v | _ \<Rightarrow> None)"
| "parse_tokens p st (t # ts) =
     (case step_token p st t of
        None \<Rightarrow> None
      | Some (p', st') \<Rightarrow> parse_tokens p' st' ts)"

definition json_of_string :: "string \<Rightarrow> json option" where
  "json_of_string s =
     (case tokenize s of None \<Rightarrow> None | Some ts \<Rightarrow> parse_tokens PValue [] ts)"

text \<open>
  A parsed array or object is a new object: it takes the reference \<open>r\<close>, which the caller
  chooses fresh.
\<close>

fun of_json :: "nat \<Rightarrow> json \<Rightarrow> jsval" where
  "of_json r JsNull = JNull"
| "of_json r (JsBool b) = JBool b"
| "of_json r (JsNum q) = JNum (Fin q)"
| "of_json r (JsStr s) = JStr s"
| "of_json r (JsArr xs) = JObj r CArray (JsArr xs)"
| "of_json r (JsObj kvs) = JObj r CObject (JsObj kvs)"

definition JSON_parse :: "nat \<Rightarrow> string \<Rightarrow> error + jsval" where
  "JSON_parse r s =
     (case json_of_string s of None \<Rightarrow> Inl SyntaxError | Some j \<Rightarrow> Inr (of_json r j))"

section \<open>Property definitions and the host\<close>

text \<open>
  \<open>PropertyConfig\<close>: the options of a definition and, added to them, the default value.
  An absent field is \<open>None\<close>.  An effect pipeline (the operator that \<open>effects(node)\<close>
  returns) is modelled by the values it emits, in order, for one value it receives: \<open>tap\<close>
  and \<open>map\<close> emit one, a filter one or none.  What it does to the host, and any state it
  keeps between values, is outside the model.
\<close>

record PropertyOptions =
  attributeName :: "string option"
  converter :: "converter option"
  effects :: "(jsval \<Rightarrow> jsval list) option"

record PropertyConfig = PropertyOptions +
  initial :: jsval

definition no_options :: PropertyOptions where
  "no_options = \<lparr>attributeName = None, converter = None, effects = None\<rparr>"

text \<open>\<open>prop\<close> of the source (the name is a keyword here, hence the prime).\<close>

definition prop' :: "jsval \<Rightarrow> PropertyOptions \<Rightarrow> PropertyConfig" where
  "prop' init config =
     \<lparr>attributeName = attributeName config, converter = converter config,
      effects = effects config, initial = init\<rparr>"

text \<open>\<open>voidProp\<close> takes a constructor for its type only: the default is \<open>void initial\<close>.\<close>

definition voidProp :: "converter \<Rightarrow> PropertyOptions \<Rightarrow> PropertyConfig" where
  "voidProp init config =
     \<lparr>attributeName = attributeName config, converter = converter config,
      effects = effects config, initial = JUndefined\<rparr>"

text \<open>
  The host element: the property names that resolve on it (\<open>key in node\<close>) with their
  values, its attributes, and whether it has a shadow root.
\<close>

record node =
  props :: "string \<rightharpoonup> jsval"
  attrs :: "string \<rightharpoonup> string"
  shadowRoot :: bool

definition getAttribute :: "node \<Rightarrow> string \<Rightarrow> string option" where
  "getAttribute n name = attrs n name"

definition hasAttribute :: "node \<Rightarrow> string \<Rightarrow> bool" where
  "hasAttribute n name = (attrs n name \<noteq> None)"

text \<open>
  The functions of the runtime that \<open>parseAttribute\<close> calls and this repository does not
  define are parameters: \<open>Number(s)\<close>, \<open>BigInt(s)\<close> (\<open>None\<close>: it throws), the serialised
  \<open>new URL(s, base)\<close> (\<open>None\<close>: it throws), the time value of \<open>new Date(s)\<close> (\<open>None\<close>: an
  invalid date), the static \<open>parse\<close> of a class if it has one, and \<open>location.origin\<close>.
\<close>

record builtins =
  Number_of :: "string \<Rightarrow> jsnum"
  BigInt_of :: "string \<Rightarrow> int option"
  URL_href :: "string \<Rightarrow> string \<Rightarrow> string option"
  Date_parse :: "string \<Rightarrow> int option"
  class_parse :: "nat \<Rightarrow> (nat \<Rightarrow> string \<Rightarrow> error + jsval) option"
  origin :: string

text \<open>The time value of \<open>new Date(number)\<close>: truncated, invalid beyond 8.64e15 ms.\<close>

fun time_clip :: "jsnum \<Rightarrow> int option" where
  "time_clip (Fin q) =
     (if \<bar>q\<bar> \<le> 8640000000000000 then Some (if 0 \<le> q then \<lfloor>q\<rfloor> else \<lceil>q\<rceil>) else None)"
| "time_clip _ = None"

definition date_object :: "nat \<Rightarrow> int option \<Rightarrow> jsval" where
  "date_object r t = JObj r CDate (case t of None \<Rightarrow> JsNull | Some ms \<Rightarrow> JsNum (of_int ms))"

section \<open>parseAttribute\<close>

text \<open>\<open>config.converter || config.initial && config.initial.constructor || JSON\<close>\<close>

definition resolve_converter :: "PropertyConfig \<Rightarrow> converter" where
  "resolve_converter config =
     (case converter config of
        Some c \<Rightarrow> c
      | None \<Rightarrow>
          (if truthy (initial config)
           then (case constructor_of (initial config) of Some c \<Rightarrow> c | None \<Rightarrow> CJSON)
           else CJSON))"

text \<open>\<open>attribute.replace(/"/g, '\\"')\<close> between two quotes.\<close>

definition quoted :: "string \<Rightarrow> string" where
  "quoted a =
     [CHR 0x22] @ concat (map (\<lambda>c. if c = CHR 0x22 then [CHR 0x5C, CHR 0x22] else [c]) a)
       @ [CHR 0x22]"

text \<open>
  The \<open>switch\<close> on the converter; \<open>present\<close> is \<open>hasAttribute\<close> of the attribute's name,
  \<open>r\<close> the reference of the object it may create.
\<close>

fun convert :: "builtins \<Rightarrow> nat \<Rightarrow> converter \<Rightarrow> bool \<Rightarrow> string \<Rightarrow> error + jsval" where
  "convert bi r CJSON present a =
     (case JSON_parse r a of
        Inr v \<Rightarrow> Inr v
      | Inl e \<Rightarrow> JSON_parse r (quoted a))"
| "convert bi r CBoolean present a = Inr (JBool present)"
| "convert bi r CURL present a =
     (case URL_href bi a (origin bi) of
        None \<Rightarrow> Inl TypeError
      | Some h \<Rightarrow> Inr (JObj r CURL (JsStr h)))"
| "convert bi r CDate present a =
     (case Date_parse bi a of
        None \<Rightarrow> Inr (date_object r (time_clip (Number_of bi a)))
      | Some t \<Rightarrow> Inr (date_object r (Some t)))"
| "convert bi r CString present a = Inr (JStr a)"
| "convert bi r CNumber present a = Inr (JNum (Number_of bi a))"
| "convert bi r CBigInt present a =
     (case BigInt_of bi a of None \<Rightarrow> Inl SyntaxError | Some i \<Rightarrow> Inr (JBigInt i))"
| "convert bi r CObject present a = Inl TypeError"
| "convert bi r CArray present a = Inl TypeError"
| "convert bi r (CClass c) present a =
     (case class_parse bi c of None \<Rightarrow> Inl TypeError | Some p \<Rightarrow> p r a)"

definition attribute_name :: "string \<Rightarrow> PropertyConfig \<Rightarrow> string" where
  "attribute_name key config =
     (case attributeName config of
        Some a \<Rightarrow> if a \<noteq> [] then a else key
      | None \<Rightarrow> key)"

definition parseAttribute ::
  "builtins \<Rightarrow> nat \<Rightarrow> node \<Rightarrow> string \<Rightarrow> PropertyConfig \<Rightarrow> error + jsval" where
  "parseAttribute bi r n key config =
     (let attribute = getAttribute n (attribute_name key config);
          conv = resolve_converter config
      in if (attribute = None \<or> attribute = Some []) \<and> conv \<noteq> CBoolean
         then Inr (initial config)
         else convert bi r conv (hasAttribute n (attribute_name key config))
                (case attribute of Some a \<Rightarrow> a | None \<Rightarrow> []))"

section \<open>createPropertiesDescriptors\<close>

text \<open>
  A schema is the list of its entries in the order of \<open>Object.keys\<close>.  The result is the
  table of setters: per key, the current value of its \<open>BehaviorSubject\<close> and the
  definition.  Every seed is computed before any accessor is installed, and
  \<open>Object.defineProperties\<close> is taken to accept every accessor (the host has no
  non-configurable property of these names).  The \<open>i\<close>-th entry may create one object,
  with reference \<open>r + i\<close>.
\<close>

type_synonym Setters = "(string \<times> jsval \<times> PropertyConfig) list"

fun createPropertiesDescriptors ::
  "builtins \<Rightarrow> nat \<Rightarrow> node \<Rightarrow> (string \<times> PropertyConfig) list \<Rightarrow> error + Setters" where
  "createPropertiesDescriptors bi r base [] = Inr []"
| "createPropertiesDescriptors bi r base ((key, config) # rest) =
     (case (case props base key of
              Some v \<Rightarrow> Inr v
            | None \<Rightarrow> parseAttribute bi r base key config) of
        Inl e \<Rightarrow> Inl e
      | Inr init \<Rightarrow>
          (case createPropertiesDescriptors bi (Suc r) base rest of
             Inl e \<Rightarrow> Inl e
           | Inr triggers \<Rightarrow> Inr ((key, init, config) # triggers)))"

text \<open>
  The earlier version of the function, in \<open>src/src/hyperplane.ts\<close>, has no attribute
  codec: \<open>new BehaviorSubject(key in newBase ? newBase[key] : config.initial)\<close>.
\<close>

fun createPropertiesDescriptors_earlier ::
  "node \<Rightarrow> (string \<times> PropertyConfig) list \<Rightarrow> Setters" where
  "createPropertiesDescriptors_earlier base [] = []"
| "createPropertiesDescriptors_earlier base ((key, config) # rest) =
     (key, (case props base key of Some v \<Rightarrow> v | None \<Rightarrow> initial config), config)
       # createPropertiesDescriptors_earlier base rest"

section \<open>getPropertyChangeListener\<close>

text \<open>
  \<open>distinctUntilChanged()\<close> of rxjs with its default comparison \<open>===\<close>: the operator
  holds the last value it let through (none before the first) and drops a value strictly
  equal to it.
\<close>

fun distinctUntilChanged :: "jsval option \<Rightarrow> jsval \<Rightarrow> bool \<times> jsval option" where
  "distinctUntilChanged None v = (True, Some v)"
| "distinctUntilChanged (Some k) v =
     (if strict_eq k v then (False, Some k) else (True, Some v))"

text \<open>\<open>propertyConfig.effects ? propertyConfig.effects(instance) : tap()\<close>\<close>

definition run_effects :: "PropertyConfig \<Rightarrow> jsval \<Rightarrow> jsval list" where
  "run_effects config v = (case effects config of None \<Rightarrow> [v] | Some f \<Rightarrow> f v)"

text \<open>
  One property's stream inside one subscription:
  \<open>trigger.pipe(distinctUntilChanged(), effects, map(value => [propertyName, value]))\<close>
  receiving the value \<open>v\<close>.
\<close>

definition property_pipe ::
  "PropertyConfig \<Rightarrow> string \<Rightarrow> jsval option \<Rightarrow> jsval \<Rightarrow> (string \<times> jsval) list \<times> jsval option" where
  "property_pipe config name k v =
     (case distinctUntilChanged k v of
        (True, k') \<Rightarrow> (map (Pair name) (run_effects config v), k')
      | (False, k') \<Rightarrow> ([], k'))"

text \<open>
  Subscribing to the merged stream subscribes to every property's stream in turn; a
  \<open>BehaviorSubject\<close> hands its current value to a new subscriber at once.  The state of a
  subscription is, per property, the value its \<open>distinctUntilChanged\<close> holds.
\<close>

fun listener_subscribe :: "Setters \<Rightarrow> (string \<times> jsval) list \<times> (string \<rightharpoonup> jsval)" where
  "listener_subscribe [] = ([], Map.empty)"
| "listener_subscribe ((name, v, config) # rest) =
     (let (evs, k) = property_pipe config name None v;
          (evs', st) = listener_subscribe rest
      in (evs @ evs', st(name := k)))"

text \<open>A subscription receiving \<open>trigger.next(v)\<close> of the property \<open>name\<close>.\<close>

definition listener_next ::
  "Setters \<Rightarrow> (string \<rightharpoonup> jsval) \<Rightarrow> string \<Rightarrow> jsval \<Rightarrow> (string \<times> jsval) list \<times> (string \<rightharpoonup> jsval)" where
  "listener_next ts st name v =
     (case map_of ts name of
        None \<Rightarrow> ([], st)
      | Some (cur, config) \<Rightarrow>
          (let (evs, k) = property_pipe config name (st name) v in (evs, st(name := k))))"

text \<open>The events one subscription emits for a sequence of writes, write by write.\<close>

fun listener_run ::
  "Setters \<Rightarrow> (string \<rightharpoonup> jsval) \<Rightarrow> (string \<times> jsval) list \<Rightarrow> (string \<times> jsval) list list" where
  "listener_run ts st [] = []"
| "listener_run ts st ((name, v) # ws) =
     (let (evs, st') = listener_next ts st name v in evs # listener_run ts st' ws)"

text \<open>The value of each cell.\<close>

definition current :: "Setters \<Rightarrow> string \<rightharpoonup> jsval" where
  "current ts name = map_option fst (map_of ts name)"

text \<open>
  The change stream as the specification words it, for comparison with \<open>listener_run\<close>:
  a write is an event exactly when its value differs from the value last written to the
  property, the first write being compared with the seed.  \<open>eq\<close> is the equality meant.
\<close>

fun changes ::
  "(jsval \<Rightarrow> jsval \<Rightarrow> bool) \<Rightarrow> Setters \<Rightarrow> (string \<rightharpoonup> jsval) \<Rightarrow> (string \<times> jsval) list
     \<Rightarrow> (string \<times> jsval) list list" where
  "changes eq ts cur [] = []"
| "changes eq ts cur ((name, v) # ws) =
     (case (map_of ts name, cur name) of
        (Some (seed, config), Some previous) \<Rightarrow>
          (if eq previous v then [] else map (Pair name) (run_effects config v))
            # changes eq ts (cur(name \<mapsto> v)) ws
      | _ \<Rightarrow> [] # changes eq ts cur ws)"

text \<open>
  Structural equality: the same value up to the identity of objects, and \<open>NaN\<close> equal to
  itself.
\<close>

fun struct_eq :: "jsval \<Rightarrow> jsval \<Rightarrow> bool" where
  "struct_eq (JObj r c d) (JObj r' c' d') = (c = c' \<and> d = d')"
| "struct_eq a b = (a = b)"

section \<open>mapProperties\<close>

text \<open>
  \<open>node[key]\<close> once the accessors are installed: the getter of a schema key returns the
  value of its cell; any other name reads the host.
\<close>

definition node_get :: "Setters \<Rightarrow> node \<Rightarrow> string \<Rightarrow> jsval" where
  "node_get ts n key =
     (case map_of ts key of
        Some (v, config) \<Rightarrow> v
      | None \<Rightarrow> (case props n key of Some v \<Rightarrow> v | None \<Rightarrow> JUndefined))"

definition mapProperties ::
  "(string \<times> PropertyConfig) list \<Rightarrow> Setters \<Rightarrow> node \<Rightarrow> (string \<times> jsval) list" where
  "mapProperties properties ts n = map (\<lambda>key. (key, node_get ts n key)) (map fst properties)"

section \<open>create\<close>

text \<open>
  What \<open>create\<close> builds around a host.  A registered observable is either one the
  embedder passed to \<open>subscribe\<close>, modelled as a hot source named by a number (a \<open>Subject\<close>:
  it emits only when told to), or the pipeline \<open>useTemplate\<close> builds from a template
  function, \<open>merge(propertyChanged$, update$).pipe(mapProperties(properties, node),
  tap(props => renderer(template(props), node.shadowRoot || node)))\<close>.

  The renderer and the observers of the embedder's sources are opaque, so what they are
  called with is recorded: \<open>Rendered x t\<close> is the call \<open>renderer(x, t)\<close>, and \<open>Observed src v\<close>
  one subscription to the source \<open>src\<close> receiving \<open>v\<close>.
\<close>

datatype 'r pipeline = External nat | Template "(string \<times> jsval) list \<Rightarrow> 'r"

datatype target = ShadowRoot | Host

datatype 'r call = Observed nat jsval | Rendered 'r target

text \<open>
  \<open>subscriptions\<close> and \<open>registeredObservables\<close> are the two arrays of \<open>create\<close>; \<open>live\<close> is
  the runtime's side of them: every subscription that is open, with its handle, its
  observable and the state of its operators.
\<close>

record 'r hyperplane =
  component :: node
  properties :: "(string \<times> PropertyConfig) list"
  setters :: Setters
  registeredObservables :: "'r pipeline list"
  subscriptions :: "nat list"
  live :: "(nat \<times> 'r pipeline \<times> (string \<rightharpoonup> jsval)) list"
  next_handle :: nat
  next_ref :: nat
  outputs :: "'r call list"

definition create ::
  "builtins \<Rightarrow> nat \<Rightarrow> node \<Rightarrow> (string \<times> PropertyConfig) list \<Rightarrow> error + 'r hyperplane" where
  "create bi r n ps =
     (case createPropertiesDescriptors bi r n ps of
        Inl e \<Rightarrow> Inl e
      | Inr ts \<Rightarrow>
          Inr \<lparr>component = n, properties = ps, setters = ts, registeredObservables = [],
               subscriptions = [], live = [], next_handle = 0, next_ref = r + length ps,
               outputs = []\<rparr>)"

definition subscribe :: "'r pipeline list \<Rightarrow> 'r hyperplane \<Rightarrow> 'r hyperplane" where
  "subscribe observables s =
     s\<lparr>registeredObservables := registeredObservables s @ observables\<rparr>"

definition useTemplate :: "((string \<times> jsval) list \<Rightarrow> 'r) \<Rightarrow> 'r hyperplane \<Rightarrow> 'r hyperplane" where
  "useTemplate template s = subscribe [Template template] s"

definition snapshot :: "'r hyperplane \<Rightarrow> (string \<times> jsval) list" where
  "snapshot s = mapProperties (properties s) (setters s) (component s)"

text \<open>\<open>node.shadowRoot || node\<close>\<close>

definition render_target :: "'r hyperplane \<Rightarrow> target" where
  "render_target s = (if shadowRoot (component s) then ShadowRoot else Host)"

text \<open>
  \<open>observable.subscribe()\<close>: the new subscription's handle and the state after it.  The
  template pipeline receives at once one change event per value the cells hand to it.
\<close>

definition observable_subscribe :: "'r pipeline \<Rightarrow> 'r hyperplane \<Rightarrow> nat \<times> 'r hyperplane" where
  "observable_subscribe p s =
     (let h = next_handle s in
      case p of
        External src \<Rightarrow>
          (h, s\<lparr>live := live s @ [(h, p, Map.empty)], next_handle := Suc h\<rparr>)
      | Template f \<Rightarrow>
          (let (evs, st) = listener_subscribe (setters s) in
           (h, s\<lparr>live := live s @ [(h, p, st)], next_handle := Suc h,
                 outputs := outputs s
                   @ map (\<lambda>ev. Rendered (f (snapshot s)) (render_target s)) evs\<rparr>)))"

fun subscribe_all :: "'r pipeline list \<Rightarrow> 'r hyperplane \<Rightarrow> nat list \<times> 'r hyperplane" where
  "subscribe_all [] s = ([], s)"
| "subscribe_all (p # ps) s =
     (let (h, s') = observable_subscribe p s;
          (hs, s'') = subscribe_all ps s'
      in (h # hs, s''))"

text \<open>
  The listener of \<open>connected\<close>:
  \<open>registeredObservables.map(o => o.subscribe()).forEach(s => subscriptions.push(s))\<close>.
\<close>

definition on_connected :: "'r hyperplane \<Rightarrow> 'r hyperplane" where
  "on_connected s =
     (let (hs, s') = subscribe_all (registeredObservables s) s
      in s'\<lparr>subscriptions := subscriptions s' @ hs\<rparr>)"

text \<open>
  The listener of \<open>disconnected\<close>:
  \<open>subscriptions.splice(0, subscriptions.length).forEach(s => s.unsubscribe())\<close>.
\<close>

definition on_disconnected :: "'r hyperplane \<Rightarrow> 'r hyperplane" where
  "on_disconnected s =
     s\<lparr>live := filter (\<lambda>(h, p, st). h \<notin> set (subscriptions s)) (live s),
       subscriptions := []\<rparr>"

definition set_cell :: "string \<Rightarrow> jsval \<Rightarrow> Setters \<Rightarrow> Setters" where
  "set_cell name v ts = map (\<lambda>(k, cur, config). if k = name then (k, v, config) else (k, cur, config)) ts"

text \<open>
  The open subscriptions receiving the value \<open>v\<close> of the cell \<open>name\<close>, in the order they
  were opened: a template pipeline renders once per change event, from the snapshot
  \<open>snap\<close>.
\<close>

fun notify ::
  "Setters \<Rightarrow> (string \<times> jsval) list \<Rightarrow> target \<Rightarrow> string \<Rightarrow> jsval
     \<Rightarrow> (nat \<times> 'r pipeline \<times> (string \<rightharpoonup> jsval)) list
     \<Rightarrow> (nat \<times> 'r pipeline \<times> (string \<rightharpoonup> jsval)) list \<times> 'r call list" where
  "notify ts snap tg name v [] = ([], [])"
| "notify ts snap tg name v ((h, External src, st) # subs) =
     (let (subs', out) = notify ts snap tg name v subs
      in ((h, External src, st) # subs', out))"
| "notify ts snap tg name v ((h, Template f, st) # subs) =
     (let (evs, st') = listener_next ts st name v;
          (subs', out) = notify ts snap tg name v subs
      in ((h, Template f, st') # subs', map (\<lambda>ev. Rendered (f snap) tg) evs @ out))"

text \<open>
  \<open>trigger$.next(v)\<close> on the cell \<open>name\<close>: a \<open>BehaviorSubject\<close> stores the value, then
  hands it to its subscribers.
\<close>

definition trigger_next :: "string \<Rightarrow> jsval \<Rightarrow> 'r hyperplane \<Rightarrow> 'r hyperplane" where
  "trigger_next name v s =
     (let s1 = s\<lparr>setters := set_cell name v (setters s)\<rparr>;
          (subs, out) = notify (setters s1) (snapshot s1) (render_target s1) name v (live s1)
      in s1\<lparr>live := subs, outputs := outputs s1 @ out\<rparr>)"

text \<open>\<open>node[name] = v\<close>: the installed setter of a schema key, a plain property otherwise.\<close>

definition set_property :: "string \<Rightarrow> jsval \<Rightarrow> 'r hyperplane \<Rightarrow> 'r hyperplane" where
  "set_property name v s =
     (if map_of (setters s) name \<noteq> None then trigger_next name v s
      else s\<lparr>component := (component s)\<lparr>props := (props (component s))(name \<mapsto> v)\<rparr>\<rparr>)"

text \<open>\<open>update$.next()\<close>: \<open>update$\<close> is a plain \<open>Subject\<close>, seen only by the template pipelines.\<close>

definition update :: "'r hyperplane \<Rightarrow> 'r hyperplane" where
  "update s =
     s\<lparr>outputs := outputs s
        @ concat (map (\<lambda>(h, p, st). case p of
                                      Template f \<Rightarrow> [Rendered (f (snapshot s)) (render_target s)]
                                    | External src \<Rightarrow> []) (live s))\<rparr>"

text \<open>The embedder's source \<open>src\<close> emitting \<open>v\<close>.\<close>

definition emit :: "nat \<Rightarrow> jsval \<Rightarrow> 'r hyperplane \<Rightarrow> 'r hyperplane" where
  "emit src v s =
     s\<lparr>outputs := outputs s
        @ concat (map (\<lambda>(h, p, st). case p of
                                      External src' \<Rightarrow> if src' = src then [Observed src v] else []
                                    | Template f \<Rightarrow> []) (live s))\<rparr>"

text \<open>
  The listener of \<open>attributeChanged\<close>, with \<open>detail = [attr, old, newValue]\<close>.

  \<open>const [key, setter] = [attr, setters[attr]] || Object.entries(setters).find(...) || []\<close>:
  the array literal on the left of \<open>||\<close> is truthy whatever it holds, so the search on the
  right is never evaluated; \<open>key\<close> is \<open>attr\<close> and \<open>setter\<close> is \<open>setters[attr]\<close>.  The table
  is read by its own keys; attribute names that \<open>Object.prototype\<close> defines are not
  modelled.

  \<open>parseAttribute(node, key, newValue)\<close> receives the raw new value where its parameter
  \<open>config\<close> stands.  \<open>newValue\<close> is a string, or \<open>null\<close> when the attribute was removed:
  a string has no \<open>attributeName\<close>, \<open>converter\<close> or \<open>initial\<close>, so the three read as
  \<open>undefined\<close>, and reading them from \<open>null\<close> throws a \<open>TypeError\<close>.
\<close>

definition config_of_raw :: "string option \<Rightarrow> error + PropertyConfig" where
  "config_of_raw newValue =
     (case newValue of
        None \<Rightarrow> Inl TypeError
      | Some text \<Rightarrow>
          Inr \<lparr>attributeName = None, converter = None, effects = None, initial = JUndefined\<rparr>)"

definition on_attributeChanged ::
  "builtins \<Rightarrow> string \<Rightarrow> string option \<Rightarrow> 'r hyperplane \<Rightarrow> error + 'r hyperplane" where
  "on_attributeChanged bi attr newValue s =
     (case map_of (setters s) attr of
        None \<Rightarrow> Inr s
      | Some setter \<Rightarrow>
          (case config_of_raw newValue of
             Inl e \<Rightarrow> Inl e
           | Inr config \<Rightarrow>
               (case parseAttribute bi (next_ref s) (component s) attr config of
                  Inl e \<Rightarrow> Inl e
                | Inr v \<Rightarrow> Inr (trigger_next attr v (s\<lparr>next_ref := Suc (next_ref s)\<rparr>)))))"

text \<open>The platform changing an attribute of the host (\<open>None\<close>: removing it).\<close>

definition set_attribute :: "string \<Rightarrow> string option \<Rightarrow> 'r hyperplane \<Rightarrow> 'r hyperplane" where
  "set_attribute name v s =
     s\<lparr>component := (component s)\<lparr>attrs := (attrs (component s))(name := v)\<rparr>\<rparr>"

section \<open>Runs\<close>

text \<open>
  What can happen to a host after \<open>create\<close>.  A listener that throws leaves the state as
  it was.
\<close>

datatype 'r action = Connected | Disconnected
  | AttributeChanged string "string option"
  | SetAttribute string "string option"
  | SetProperty string jsval
  | Update
  | Emit nat jsval
  | Subscribe "'r pipeline list"
  | UseTemplate "(string \<times> jsval) list \<Rightarrow> 'r"

fun step :: "builtins \<Rightarrow> 'r hyperplane \<Rightarrow> 'r action \<Rightarrow> 'r hyperplane" where
  "step bi s Connected = on_connected s"
| "step bi s Disconnected = on_disconnected s"
| "step bi s (AttributeChanged attr newValue) =
     (case on_attributeChanged bi attr newValue s of Inl e \<Rightarrow> s | Inr s' \<Rightarrow> s')"
| "step bi s (SetAttribute name v) = set_attribute name v s"
| "step bi s (SetProperty name v) = set_property name v s"
| "step bi s Update = update s"
| "step bi s (Emit src v) = emit src v s"
| "step bi s (Subscribe observables) = subscribe observables s"
| "step bi s (UseTemplate template) = useTemplate template s"

definition run :: "builtins \<Rightarrow> 'r hyperplane \<Rightarrow> 'r action list \<Rightarrow> 'r hyperplane" where
  "run bi s acts = foldl (step bi) s acts"

text \<open>Whether the last lifecycle signal of a run was \<open>connected\<close>.\<close>

fun connected :: "bool \<Rightarrow> 'r action list \<Rightarrow> bool" where
  "connected c [] = c"
| "connected c (Connected # acts) = connected True acts"
| "connected c (Disconnected # acts) = connected False acts"
| "connected c (a # acts) = connected c acts"

section \<open>The specification's wording, and examples\<close>

text \<open>
  A runtime and two hosts for the closed examples.  No example below reaches a function of
  the runtime unless it says so, and every general statement holds for any runtime.
\<close>

definition inert :: builtins where
  "inert = \<lparr>Number_of = (\<lambda>s. NaN), BigInt_of = (\<lambda>s. None), URL_href = (\<lambda>s base. None),
            Date_parse = (\<lambda>s. None), class_parse = (\<lambda>c. None), origin = []\<rparr>"

definition bare :: node where
  "bare = \<lparr>props = Map.empty, attrs = Map.empty, shadowRoot = False\<rparr>"

text \<open>The host and the schema of the repository's own test of \<open>create\<close>.\<close>

definition host123 :: node where
  "host123 = \<lparr>props = [''a'' \<mapsto> JNum (Fin 1), ''b'' \<mapsto> JNum (Fin 2), ''c'' \<mapsto> JNum (Fin 3)],
              attrs = Map.empty, shadowRoot = False\<rparr>"

definition schema_abc :: "(string \<times> PropertyConfig) list" where
  "schema_abc = [(''a'', prop' (JNum (Fin 0)) no_options), (''b'', prop' (JNum (Fin 0)) no_options),
                 (''c'', voidProp CNumber no_options)]"

text \<open>
  The seed as the specification words it: the host's value if the name resolves on the
  host, otherwise the decoded attribute if there is one, otherwise the default.
\<close>

definition claimed_seed :: "builtins \<Rightarrow> nat \<Rightarrow> node \<Rightarrow> string \<Rightarrow> PropertyConfig \<Rightarrow> error + jsval" where
  "claimed_seed bi r base key config =
     (case props base key of
        Some v \<Rightarrow> Inr v
      | None \<Rightarrow>
          (case getAttribute base (attribute_name key config) of
             Some a \<Rightarrow> convert bi r (resolve_converter config) True a
           | None \<Rightarrow> Inr (initial config)))"

text \<open>
  The seed with the two provisos of the source: a Boolean converter yields the presence of
  the attribute whatever the default, and an empty attribute counts as none for every
  other converter.
\<close>

definition seed :: "builtins \<Rightarrow> nat \<Rightarrow> node \<Rightarrow> string \<Rightarrow> PropertyConfig \<Rightarrow> error + jsval" where
  "seed bi r base key config =
     (case props base key of
        Some v \<Rightarrow> Inr v
      | None \<Rightarrow>
          (if resolve_converter config = CBoolean
           then Inr (JBool (hasAttribute base (attribute_name key config)))
           else (case getAttribute base (attribute_name key config) of
                   None \<Rightarrow> Inr (initial config)
                 | Some a \<Rightarrow>
                     if a = [] then Inr (initial config)
                     else convert bi r (resolve_converter config) True a)))"

text \<open>
  Two values that \<open>distinctUntilChanged\<close> cannot tell apart: the value it holds and the
  value last written stay related this way.
\<close>

definition agree :: "(string \<rightharpoonup> jsval) \<Rightarrow> (string \<rightharpoonup> jsval) \<Rightarrow> bool" where
  "agree st cur =
     (\<forall>n. (st n = None \<and> cur n = None)
        \<or> (\<exists>k c. st n = Some k \<and> cur n = Some c \<and> (\<forall>x. strict_eq k x = strict_eq c x)))"

text \<open>The handles and the observables of the open subscriptions, in order.\<close>

definition handles :: "'r hyperplane \<Rightarrow> nat list" where
  "handles s = map fst (live s)"

definition pipes :: "'r hyperplane \<Rightarrow> 'r pipeline list" where
  "pipes s = map (\<lambda>(h, p, st). p) (live s)"

text \<open>What the subscriptions to the source \<open>src\<close> have received so far.\<close>

fun observed :: "nat \<Rightarrow> 'r call list \<Rightarrow> jsval list" where
  "observed src [] = []"
| "observed src (Observed src' v # cs) =
     (if src' = src then v # observed src cs else observed src cs)"
| "observed src (Rendered x t # cs) = observed src cs"

text \<open>The calls of the renderer so far.\<close>

fun rendered :: "'r call list \<Rightarrow> ('r \<times> target) list" where
  "rendered [] = []"
| "rendered (Observed src v # cs) = rendered cs"
| "rendered (Rendered x t # cs) = (x, t) # rendered cs"

text \<open>The template functions among a list of observables.\<close>

fun templates :: "'r pipeline list \<Rightarrow> ((string \<times> jsval) list \<Rightarrow> 'r) list" where
  "templates [] = []"
| "templates (External src # ps) = templates ps"
| "templates (Template f # ps) = f # templates ps"

text \<open>The table read as a snapshot: every key with the value of its cell.\<close>

definition cells :: "Setters \<Rightarrow> (string \<times> jsval) list" where
  "cells ts = map (\<lambda>(key, cur, config). (key, cur)) ts"

text \<open>
  What the write of \<open>v\<close> to \<open>name\<close> makes the template pipelines among \<open>subs\<close> render, \<open>s'\<close>
  being the state after the write: one call of the renderer per change event of each.
\<close>

definition renders_on_write ::
  "'r hyperplane \<Rightarrow> string \<Rightarrow> jsval \<Rightarrow> (nat \<times> 'r pipeline \<times> (string \<rightharpoonup> jsval)) list
     \<Rightarrow> 'r call list" where
  "renders_on_write s' name v subs =
     concat (map (\<lambda>(h, p, st). case p of
         Template f \<Rightarrow> map (\<lambda>ev. Rendered (f (snapshot s')) (render_target s'))
                        (fst (listener_next (setters s') st name v))
       | External src \<Rightarrow> []) subs)"

text \<open>The schema \<open>ps\<close> is installed: one cell per entry, in order.\<close>

definition installed :: "(string \<times> PropertyConfig) list \<Rightarrow> bool \<Rightarrow> 'r hyperplane \<Rightarrow> bool" where
  "installed ps sh s =
     (properties s = ps \<and> map fst (setters s) = map fst ps \<and> shadowRoot (component s) = sh)"

text \<open>What \<open>create\<close> returns for the test's host and schema.\<close>

definition created_abc :: "'r hyperplane" where
  "created_abc =
     \<lparr>component = host123, properties = schema_abc,
      setters = [(''a'', JNum (Fin 1), prop' (JNum (Fin 0)) no_options),
                 (''b'', JNum (Fin 2), prop' (JNum (Fin 0)) no_options),
                 (''c'', JNum (Fin 3), voidProp CNumber no_options)],
      registeredObservables = [], subscriptions = [], live = [], next_handle = 0,
      next_ref = 3, outputs = []\<rparr>"

text \<open>
  A schema with a property bound to an attribute of another name, and a string property;
  and what \<open>create\<close> returns for it on a bare host.
\<close>

definition foo_schema :: "(string \<times> PropertyConfig) list" where
  "foo_schema = [(''foo'', prop' (JStr ''foo'') (no_options\<lparr>attributeName := Some ''bar''\<rparr>)),
                 (''s'', prop' (JStr ''a'') no_options)]"

definition created_foo :: "'r hyperplane" where
  "created_foo =
     \<lparr>component = bare, properties = foo_schema,
      setters = [(''foo'', JStr ''foo'',
                  prop' (JStr ''foo'') (no_options\<lparr>attributeName := Some ''bar''\<rparr>)),
                 (''s'', JStr ''a'', prop' (JStr ''a'') no_options)],
      registeredObservables = [], subscriptions = [], live = [], next_handle = 0,
      next_ref = 2, outputs = []\<rparr>"




section \<open>The attribute codec\<close>

subsection \<open>Facts about JSON.parse\<close>

text \<open>A token is never empty, so the lexer's test on the lengths is always passed.\<close>

lemma json_chars_shorter: "json_chars m cs = Some (x, rest) \<Longrightarrow> length rest < length cs"
proof (induction m cs arbitrary: x rule: json_chars.induct)
  case (1 m)
  then show ?case by simp
next
  case (2 c cs)
  then show ?case by (auto split: if_splits; fastforce)
next
  case (3 c cs)
  then show ?case by (auto split: if_splits option.splits; fastforce)
next
  case (4 n acc c cs)
  then show ?case by (auto split: option.splits nat.splits; fastforce)
qed

lemma lex_number_shorter: "lex_number s = Some (q, rest) \<Longrightarrow> length rest < length s"
proof -
  have d: "length (dropWhile P xs) \<le> length xs" for P and xs :: string
    by (induction xs) auto
  have i: "lex_int t = Some (ip, u) \<Longrightarrow> length u < length t" for t ip u
    using d[of is_digit "tl t"]
    by (cases t) (auto simp: lex_int_def split: if_splits)
  have f: "length (snd (lex_frac t)) \<le> length t" for t
    using d[of is_digit "tl t"] by (cases t) (auto simp: lex_frac_def)
  have e: "length (snd (lex_exp t)) \<le> length t" for t
  proof (cases t)
    case Nil
    then show ?thesis by (simp add: lex_exp_def)
  next
    case (Cons c cs)
    show ?thesis
    proof (cases cs)
      case Nil
      with Cons show ?thesis by (simp add: lex_exp_def)
    next
      case (Cons a r)
      then show ?thesis using \<open>t = c # cs\<close> d[of is_digit r] d[of is_digit cs]
        by (auto simp: lex_exp_def Let_def)
    qed
  qed
  assume a: "lex_number s = Some (q, rest)"
  define s1 where "s1 = snd (case s of c # cs \<Rightarrow> if c = CHR ''-'' then (True, cs) else (False, s)
                               | [] \<Rightarrow> (False, s))"
  have s1: "length s1 \<le> length s" by (cases s) (auto simp: s1_def)
  from a obtain ip s2 where li: "lex_int s1 = Some (ip, s2)"
    and r: "rest = snd (lex_exp (snd (lex_frac s2)))"
    by (auto simp: lex_number_def s1_def Let_def split: prod.splits option.splits list.splits if_splits)
  from i[OF li] f[of s2] e[of "snd (lex_frac s2)"] s1 r show ?thesis by simp
qed

lemma lex_token_shorter: "lex_token s = Some (t, rest) \<Longrightarrow> length rest < length s"
  by (cases s)
    (auto simp: lex_token_def lex_word_def split: if_splits
      dest: json_chars_shorter lex_number_shorter)

lemma tokenize_unguarded:
  "tokenize (c # cs) =
     (if is_ws c then tokenize cs
      else (case lex_token (c # cs) of
              None \<Rightarrow> None
            | Some (t, rest) \<Rightarrow> map_option ((#) t) (tokenize rest)))"
  by (auto split: option.splits dest: lex_token_shorter)

lemma json_chars_escaped:
  "\<forall>c \<in> set a. c \<noteq> CHR 0x5C \<and> 32 \<le> (of_char c :: nat) \<Longrightarrow>
   json_chars Plain
     (concat (map (\<lambda>c. if c = CHR 0x22 then [CHR 0x5C, CHR 0x22] else [c]) a) @ [CHR 0x22])
     = Some (a, [])"
  by (induction a) (auto simp: escape_char_def)

text \<open>
  Where the fallback does recover: a text with no backslash and no control character,
  quoted, parses to itself.
\<close>

lemma JSON_parse_quoted:
  assumes "\<forall>c \<in> set a. c \<noteq> CHR 0x5C \<and> 32 \<le> (of_char c :: nat)"
  shows "JSON_parse r (quoted a) = Inr (JStr a)"
  using json_chars_escaped[OF assms]
  by (simp add: JSON_parse_def json_of_string_def quoted_def is_ws_def lex_token_def
      open_value_def)

lemma JSON_parse_backslash: "JSON_parse r [CHR 0x5C] = Inl SyntaxError"
  by (simp add: JSON_parse_def json_of_string_def lex_token_def lex_number_def lex_int_def
      is_ws_def is_digit_def)

lemma JSON_parse_quoted_backslash: "JSON_parse r (quoted [CHR 0x5C]) = Inl SyntaxError"
  by (simp add: JSON_parse_def json_of_string_def quoted_def lex_token_def is_ws_def
      escape_char_def)

subsection \<open>Converter resolution\<close>

lemma resolve_converter_explicit:
  "converter config = Some c \<Longrightarrow> resolve_converter config = c"
  by (simp add: resolve_converter_def)

lemma resolve_converter_truthy:
  "converter config = None \<Longrightarrow> truthy (initial config) \<Longrightarrow>
   constructor_of (initial config) = Some (resolve_converter config)"
  by (cases "initial config") (auto simp: resolve_converter_def)

text \<open>
  C4.  The converter is the explicit one if present, else the constructor of the default,
  else JSON.  The source tests the default for truthiness before it asks for its
  constructor, so the defaults \<open>false\<close>, \<open>0\<close> and the empty string, which have the
  constructors Boolean, Number and String, resolve to JSON.  For the flag
  \<open>prop(false)\<close> on a host that carries the attribute with empty text the decoded value is
  the default \<open>false\<close>, where the Boolean converter gives \<open>true\<close>.
\<close>

theorem C4_falsy_default_resolves_to_JSON:
  "resolve_converter (prop' (JBool False) no_options) = CJSON
   \<and> resolve_converter (prop' (JNum (Fin 0)) no_options) = CJSON
   \<and> resolve_converter (prop' (JStr []) no_options) = CJSON
   \<and> constructor_of (JBool False) = Some CBoolean
   \<and> parseAttribute bi r \<lparr>props = Map.empty, attrs = [''flag'' \<mapsto> []], shadowRoot = False\<rparr>
        ''flag'' (prop' (JBool False) no_options) = Inr (JBool False)
   \<and> parseAttribute bi r \<lparr>props = Map.empty, attrs = [''flag'' \<mapsto> []], shadowRoot = False\<rparr>
        ''flag'' (prop' (JBool False) (no_options\<lparr>converter := Some CBoolean\<rparr>))
        = Inr (JBool True)"
  by (simp add: parseAttribute_def getAttribute_def hasAttribute_def attribute_name_def
      resolve_converter_def prop'_def no_options_def)

subsection \<open>The JSON fallback\<close>

lemma JSON_parse_path: "JSON_parse r (''C:'' @ [CHR 0x5C] @ ''Users'') = Inl SyntaxError"
  by (simp add: JSON_parse_def json_of_string_def lex_token_def lex_number_def lex_int_def
      is_ws_def is_digit_def)

lemma JSON_parse_quoted_path:
  "JSON_parse r (quoted (''C:'' @ [CHR 0x5C] @ ''Users'')) = Inl SyntaxError"
  by (simp add: JSON_parse_def json_of_string_def quoted_def lex_token_def is_ws_def
      escape_char_def)

text \<open>
  C5.  When the text is not JSON the codec parses it again between quotes, with its quote
  characters escaped and nothing else.  For the attribute text made of one backslash, and
  for the text \<open>C:\Users\<close>, both parses fail and the \<open>SyntaxError\<close> of the second leaves
  \<open>parseAttribute\<close>.
\<close>

theorem C5_backslash_is_not_recovered:
  "parseAttribute bi r
     \<lparr>props = Map.empty, attrs = [''x'' \<mapsto> [CHR 0x5C]], shadowRoot = False\<rparr>
     ''x'' (prop' JUndefined no_options) = Inl SyntaxError
   \<and> parseAttribute bi r
     \<lparr>props = Map.empty, attrs = [''x'' \<mapsto> ''C:'' @ [CHR 0x5C] @ ''Users''],
      shadowRoot = False\<rparr>
     ''x'' (prop' JUndefined no_options) = Inl SyntaxError"
proof -
  have conv: "resolve_converter (prop' JUndefined no_options) = CJSON"
    by (simp add: resolve_converter_def prop'_def no_options_def)
  have name: "attribute_name ''x'' (prop' JUndefined no_options) = ''x''"
    by (simp add: attribute_name_def prop'_def no_options_def)
  have "parseAttribute bi r
     \<lparr>props = Map.empty, attrs = [''x'' \<mapsto> [CHR 0x5C]], shadowRoot = False\<rparr>
     ''x'' (prop' JUndefined no_options) = Inl SyntaxError"
    by (simp add: parseAttribute_def getAttribute_def hasAttribute_def conv name
        JSON_parse_backslash JSON_parse_quoted_backslash)
  moreover have "parseAttribute bi r
     \<lparr>props = Map.empty, attrs = [''x'' \<mapsto> ''C:'' @ [CHR 0x5C] @ ''Users''],
      shadowRoot = False\<rparr>
     ''x'' (prop' JUndefined no_options) = Inl SyntaxError"
    using JSON_parse_path[of r] JSON_parse_quoted_path[of r]
    by (simp add: parseAttribute_def getAttribute_def hasAttribute_def conv name)
  ultimately show ?thesis by simp
qed

subsection \<open>Round trips\<close>





section \<open>The property registry\<close>

lemma seed_parseAttribute:
  "(case props base key of Some v \<Rightarrow> Inr v | None \<Rightarrow> parseAttribute bi r base key config)
     = seed bi r base key config"
  by (auto simp: seed_def parseAttribute_def Let_def hasAttribute_def getAttribute_def
      split: option.splits)

lemma createPropertiesDescriptors_seeds:
  "createPropertiesDescriptors bi r base ps = Inr ts \<Longrightarrow>
   length ts = length ps \<and>
   (\<forall>i<length ps. \<exists>v. ts ! i = (fst (ps ! i), v, snd (ps ! i))
        \<and> seed bi (r + i) base (fst (ps ! i)) (snd (ps ! i)) = Inr v)"
proof (induction ps arbitrary: r ts)
  case Nil
  then show ?case by simp
next
  case (Cons p ps)
  obtain key config where p: "p = (key, config)" by (cases p)
  from Cons.prems obtain v ts' where
    v: "seed bi r base key config = Inr v" and
    ts': "createPropertiesDescriptors bi (Suc r) base ps = Inr ts'" and
    ts: "ts = (key, v, config) # ts'"
    unfolding p createPropertiesDescriptors.simps seed_parseAttribute
    by (auto split: sum.splits)
  from Cons.IH[OF ts'] have len: "length ts' = length ps"
    and rest: "\<And>i. i < length ps \<Longrightarrow> \<exists>v. ts' ! i = (fst (ps ! i), v, snd (ps ! i))
        \<and> seed bi (Suc r + i) base (fst (ps ! i)) (snd (ps ! i)) = Inr v"
    by auto
  show ?case
  proof (intro conjI allI impI)
    show "length ts = length (p # ps)" using len ts by simp
  next
    fix i assume i: "i < length (p # ps)"
    show "\<exists>v. ts ! i = (fst ((p # ps) ! i), v, snd ((p # ps) ! i))
        \<and> seed bi (r + i) base (fst ((p # ps) ! i)) (snd ((p # ps) ! i)) = Inr v"
    proof (cases i)
      case 0
      then show ?thesis using v ts p by simp
    next
      case (Suc j)
      then have "j < length ps" using i by simp
      from rest[OF this] show ?thesis using Suc ts by simp
    qed
  qed
qed

lemma example_abc:
  "createPropertiesDescriptors bi r host123 schema_abc =
     Inr [(''a'', JNum (Fin 1), prop' (JNum (Fin 0)) no_options),
          (''b'', JNum (Fin 2), prop' (JNum (Fin 0)) no_options),
          (''c'', JNum (Fin 3), voidProp CNumber no_options)]"
  by (simp add: host123_def schema_abc_def)

text \<open>The earlier version seeds the same values on that host.\<close>

lemma example_abc_earlier:
  "createPropertiesDescriptors_earlier host123 schema_abc =
     [(''a'', JNum (Fin 1), prop' (JNum (Fin 0)) no_options),
      (''b'', JNum (Fin 2), prop' (JNum (Fin 0)) no_options),
      (''c'', JNum (Fin 3), voidProp CNumber no_options)]"
  by (simp add: host123_def schema_abc_def)

text \<open>
  C2, as amended.  When the schema installs, the table has one entry per schema entry, in
  order, and the seed of each is: the host's value if the name resolves on the host;
  otherwise, for a Boolean converter, whether the attribute is present, whatever the
  default; otherwise the default if the attribute is absent or empty, and the converter's
  reading of the attribute text if not.  Installing \<open>{a: prop(0), b: prop(0),
  c: voidProp(Number)}\<close> on a host that has \<open>a = 1\<close>, \<open>b = 2\<close>, \<open>c = 3\<close> seeds 1, 2 and 3.
\<close>

theorem C2_seed_precedence:
  "(createPropertiesDescriptors bi r base ps = Inr ts \<longrightarrow>
      length ts = length ps \<and>
      (\<forall>i<length ps. \<exists>v. ts ! i = (fst (ps ! i), v, snd (ps ! i))
          \<and> seed bi (r + i) base (fst (ps ! i)) (snd (ps ! i)) = Inr v))
   \<and> createPropertiesDescriptors bi r host123 schema_abc =
       Inr [(''a'', JNum (Fin 1), prop' (JNum (Fin 0)) no_options),
            (''b'', JNum (Fin 2), prop' (JNum (Fin 0)) no_options),
            (''c'', JNum (Fin 3), voidProp CNumber no_options)]"
  using createPropertiesDescriptors_seeds[of bi r base ps ts] example_abc[of bi r] by blast

text \<open>
  The amended statement at the flag \<open>prop(true)\<close> on a host with neither the property nor
  the attribute: the seed is \<open>false\<close>.
\<close>

theorem C2_seed_precedence_witness:
  "createPropertiesDescriptors inert 0 bare [(''flag'', prop' (JBool True) no_options)]
     = Inr [(''flag'', JBool False, prop' (JBool True) no_options)]
   \<and> seed inert 0 bare ''flag'' (prop' (JBool True) no_options) = Inr (JBool False)"
proof -
  have run: "createPropertiesDescriptors inert 0 bare [(''flag'', prop' (JBool True) no_options)]
     = Inr [(''flag'', JBool False, prop' (JBool True) no_options)]"
    by (simp add: bare_def parseAttribute_def getAttribute_def hasAttribute_def
        attribute_name_def resolve_converter_def prop'_def no_options_def)
  from C2_seed_precedence[of inert 0 bare "[(''flag'', prop' (JBool True) no_options)]"
      "[(''flag'', JBool False, prop' (JBool True) no_options)]"] run
  have "\<forall>i<Suc 0. \<exists>v. [(''flag'', JBool False, prop' (JBool True) no_options)] ! i
            = (fst ([(''flag'', prop' (JBool True) no_options)] ! i), v,
               snd ([(''flag'', prop' (JBool True) no_options)] ! i))
          \<and> seed inert (0 + i) bare (fst ([(''flag'', prop' (JBool True) no_options)] ! i))
               (snd ([(''flag'', prop' (JBool True) no_options)] ! i)) = Inr v"
    by simp
  then have "seed inert 0 bare ''flag'' (prop' (JBool True) no_options) = Inr (JBool False)"
    by simp
  with run show ?thesis by simp
qed

text \<open>
  The claim as worded fails there: there is no property and no attribute, so it promises
  the default \<open>true\<close>, and the code seeds \<open>false\<close>.
\<close>

theorem C2_default_not_used_for_flag:
  "createPropertiesDescriptors inert 0 bare [(''flag'', prop' (JBool True) no_options)]
     = Inr [(''flag'', JBool False, prop' (JBool True) no_options)]
   \<and> claimed_seed inert 0 bare ''flag'' (prop' (JBool True) no_options) = Inr (JBool True)"
  by (simp add: bare_def parseAttribute_def getAttribute_def hasAttribute_def claimed_seed_def
      attribute_name_def resolve_converter_def prop'_def no_options_def)

lemma create_abc: "create bi 0 host123 schema_abc = Inr created_abc"
  by (simp add: create_def created_abc_def example_abc) (simp add: schema_abc_def)

lemma createPropertiesDescriptors_keys:
  "createPropertiesDescriptors bi r base ps = Inr ts \<Longrightarrow> map fst ts = map fst ps"
proof (induction ps arbitrary: r ts)
  case Nil
  then show ?case by simp
next
  case (Cons p ps)
  obtain key config where p: "p = (key, config)" by (cases p)
  from Cons.prems obtain v ts' where
    "createPropertiesDescriptors bi (Suc r) base ps = Inr ts'" "ts = (key, v, config) # ts'"
    unfolding p by (auto split: sum.splits)
  with Cons.IH[of "Suc r" ts'] show ?case by (simp add: p)
qed

section \<open>The change listener\<close>

lemma strict_eq_sym: "strict_eq a b \<Longrightarrow> strict_eq b a"
  by (cases a; cases b) auto

lemma strict_eq_trans: "strict_eq a b \<Longrightarrow> strict_eq b c \<Longrightarrow> strict_eq a c"
  by (cases a; cases b; cases c) auto

lemma strict_eq_cong: "strict_eq k c \<Longrightarrow> strict_eq k x = strict_eq c x"
  by (meson strict_eq_sym strict_eq_trans)

lemma listener_subscribe_state: "snd (listener_subscribe ts) = current ts"
proof (induction ts)
  case Nil
  show ?case by (simp add: current_def fun_eq_iff)
next
  case (Cons e ts)
  obtain name v config where e: "e = (name, v, config)" by (cases e)
  show ?case using Cons
    by (auto simp: e current_def fun_eq_iff property_pipe_def split: prod.splits)
qed

lemma agree_refl: "agree m m"
  unfolding agree_def by (metis option.exhaust)

lemma listener_run_changes:
  "agree st cur \<Longrightarrow> (\<forall>n. cur n = None \<longleftrightarrow> map_of ts n = None) \<Longrightarrow>
   listener_run ts st ws = changes strict_eq ts cur ws"
proof (induction ws arbitrary: st cur)
  case Nil
  show ?case by simp
next
  case (Cons w ws)
  obtain name v where w: "w = (name, v)" by (cases w)
  show ?case
  proof (cases "map_of ts name")
    case None
    then have "cur name = None" using Cons.prems(2) by simp
    with None show ?thesis using Cons by (simp add: w listener_next_def)
  next
    case (Some e)
    obtain seed config where e: "e = (seed, config)" by (cases e)
    from Some Cons.prems(2) obtain c where c: "cur name = Some c"
      by (cases "cur name") auto
    with Cons.prems(1) obtain k where k: "st name = Some k"
      and kc: "\<forall>x. strict_eq k x = strict_eq c x"
      unfolding agree_def by (metis option.distinct(1) option.inject)
    have b: "\<forall>n. (cur(name \<mapsto> v)) n = None \<longleftrightarrow> map_of ts n = None"
      using Cons.prems(2) Some by auto
    show ?thesis
    proof (cases "strict_eq c v")
      case True
      then have kv: "strict_eq k v" using kc by simp
      have a: "agree (st(name \<mapsto> k)) (cur(name \<mapsto> v))"
        using Cons.prems(1) kv kc True unfolding agree_def
        by (auto simp: strict_eq_cong)
      note ih = Cons.IH[OF a b]
      show ?thesis using True kv Some c k
        by (simp add: w e listener_next_def property_pipe_def ih del: fun_upd_apply)
    next
      case False
      then have kv: "\<not> strict_eq k v" using kc by simp
      have a: "agree (st(name \<mapsto> v)) (cur(name \<mapsto> v))"
        using Cons.prems(1) unfolding agree_def by auto
      note ih = Cons.IH[OF a b]
      show ?thesis using False kv Some c k
        by (simp add: w e listener_next_def property_pipe_def ih del: fun_upd_apply)
    qed
  qed
qed

text \<open>
  C1, as amended.  For every table of properties, a subscriber that attaches and then sees
  any sequence of writes gets, write by write, exactly the events of \<open>changes strict_eq\<close>:
  a write to a property is passed on (to the property's effect pipeline, or as one change
  event if it has none) if and only if its value is not strictly equal to the value
  written to that property just before, the first write being compared with the value the
  cell held when the subscriber attached.  Strict equality is \<open>===\<close>: by value on
  primitives, \<open>NaN\<close> unequal to itself, by reference on objects.
\<close>

theorem C1_event_iff_strictly_different:
  "listener_run ts (snd (listener_subscribe ts)) ws = changes strict_eq ts (current ts) ws"
proof -
  have held: "snd (listener_subscribe ts) = current ts"
    by (rule listener_subscribe_state)
  have same: "agree (current ts) (current ts)"
    by (rule agree_refl)
  have cells: "\<forall>n. current ts n = None \<longleftrightarrow> map_of ts n = None"
    by (simp add: current_def)
  from same cells show ?thesis
    unfolding held by (rule listener_run_changes)
qed

text \<open>
  With structural equality the claim fails: after the seed \<open>{}\<close>, writing another empty
  object, equal in structure and not the same object, emits an event.
\<close>

theorem C1_equal_structure_still_emits:
  "listener_run [(''o'', JObj 1 CObject (JsObj []), prop' JUndefined no_options)]
     (snd (listener_subscribe [(''o'', JObj 1 CObject (JsObj []), prop' JUndefined no_options)]))
     [(''o'', JObj 2 CObject (JsObj []))]
     = [[(''o'', JObj 2 CObject (JsObj []))]]
   \<and> changes struct_eq [(''o'', JObj 1 CObject (JsObj []), prop' JUndefined no_options)]
       (current [(''o'', JObj 1 CObject (JsObj []), prop' JUndefined no_options)])
       [(''o'', JObj 2 CObject (JsObj []))]
     = [[]]
   \<and> struct_eq (JObj 1 CObject (JsObj [])) (JObj 2 CObject (JsObj []))"
  by (simp add: listener_next_def property_pipe_def run_effects_def current_def prop'_def
      no_options_def)

section \<open>The lifecycle controller\<close>

subsection \<open>What each listener changes\<close>

lemma observed_append: "observed src (xs @ ys) = observed src xs @ observed src ys"
  by (induction src xs rule: observed.induct) auto

lemma observed_renders: "observed src (map (\<lambda>ev. Rendered x t) evs) = []"
  by (induction evs) auto

lemma notify_shape:
  "notify ts snap tg name v subs = (subs', out) \<Longrightarrow>
   map fst subs' = map fst subs \<and> map (\<lambda>(h, p, st). p) subs' = map (\<lambda>(h, p, st). p) subs
   \<and> observed src out = []"
proof (induction ts snap tg name v subs arbitrary: subs' out rule: notify.induct)
  case (1 ts snap tg name v)
  then show ?case by simp
next
  case (2 ts snap tg name v h src st subs)
  then show ?case by (auto split: prod.splits)
next
  case (3 ts snap tg name v h f st subs)
  then show ?case by (auto simp: observed_append observed_renders split: prod.splits)
qed

lemma observable_subscribe_shape:
  assumes "observable_subscribe p s = (h, s')"
  shows "handles s' = handles s @ [h] \<and> pipes s' = pipes s @ [p] \<and>
   subscriptions s' = subscriptions s \<and> registeredObservables s' = registeredObservables s \<and>
   setters s' = setters s \<and> properties s' = properties s \<and> component s' = component s \<and>
   observed src (outputs s') = observed src (outputs s)"
proof (cases p)
  case (External x)
  with assms show ?thesis
    by (auto simp: observable_subscribe_def handles_def pipes_def Let_def)
next
  case (Template f)
  with assms show ?thesis
    by (auto simp: observable_subscribe_def handles_def pipes_def Let_def observed_append
        observed_renders split: prod.splits)
qed

lemma subscribe_all_shape:
  "subscribe_all ps s = (hs, s') \<Longrightarrow>
   handles s' = handles s @ hs \<and> pipes s' = pipes s @ ps \<and>
   subscriptions s' = subscriptions s \<and> registeredObservables s' = registeredObservables s \<and>
   setters s' = setters s \<and> properties s' = properties s \<and> component s' = component s \<and>
   observed src (outputs s') = observed src (outputs s)"
proof (induction ps arbitrary: s hs s')
  case Nil
  then show ?case by simp
next
  case (Cons p ps)
  obtain h s1 where one: "observable_subscribe p s = (h, s1)" by (cases "observable_subscribe p s")
  obtain hs1 s2 where rest: "subscribe_all ps s1 = (hs1, s2)" by (cases "subscribe_all ps s1")
  from Cons.prems one rest have eq: "hs = h # hs1" "s' = s2" by auto
  from observable_subscribe_shape[OF one, of src] Cons.IH[OF rest] eq show ?case by simp
qed

lemma on_connected_shape:
  "\<exists>hs. handles (on_connected s) = handles s @ hs \<and>
        subscriptions (on_connected s) = subscriptions s @ hs"
  "pipes (on_connected s) = pipes s @ registeredObservables s"
  "registeredObservables (on_connected s) = registeredObservables s"
  "setters (on_connected s) = setters s"
  "properties (on_connected s) = properties s"
  "component (on_connected s) = component s"
  "observed src (outputs (on_connected s)) = observed src (outputs s)"
proof -
  obtain hs s' where a: "subscribe_all (registeredObservables s) s = (hs, s')"
    by (cases "subscribe_all (registeredObservables s) s")
  have c: "on_connected s = s'\<lparr>subscriptions := subscriptions s' @ hs\<rparr>"
    by (simp add: on_connected_def a)
  note sh = subscribe_all_shape[OF a, of src]
  show "\<exists>hs. handles (on_connected s) = handles s @ hs \<and>
        subscriptions (on_connected s) = subscriptions s @ hs"
    using sh by (auto simp: c handles_def)
  show "pipes (on_connected s) = pipes s @ registeredObservables s"
    using sh by (simp add: c pipes_def)
  show "registeredObservables (on_connected s) = registeredObservables s" using sh by (simp add: c)
  show "setters (on_connected s) = setters s" using sh by (simp add: c)
  show "properties (on_connected s) = properties s" using sh by (simp add: c)
  show "component (on_connected s) = component s" using sh by (simp add: c)
  show "observed src (outputs (on_connected s)) = observed src (outputs s)" using sh by (simp add: c)
qed

lemma on_disconnected_clears:
  "handles s = subscriptions s \<Longrightarrow>
   live (on_disconnected s) = [] \<and> subscriptions (on_disconnected s) = []"
proof -
  assume a: "handles s = subscriptions s"
  have "filter (\<lambda>(h, p, st). h \<notin> set (map fst (live s))) (live s) = []"
    by (force simp: filter_empty_conv)
  with a show ?thesis by (simp add: on_disconnected_def handles_def)
qed

lemma trigger_next_shape:
  "handles (trigger_next name v s) = handles s"
  "pipes (trigger_next name v s) = pipes s"
  "subscriptions (trigger_next name v s) = subscriptions s"
  "registeredObservables (trigger_next name v s) = registeredObservables s"
  "properties (trigger_next name v s) = properties s"
  "component (trigger_next name v s) = component s"
  "setters (trigger_next name v s) = set_cell name v (setters s)"
  "observed src (outputs (trigger_next name v s)) = observed src (outputs s)"
proof -
  let ?s1 = "s\<lparr>setters := set_cell name v (setters s)\<rparr>"
  obtain subs out where n: "notify (setters ?s1) (snapshot ?s1) (render_target ?s1) name v (live ?s1) = (subs, out)"
    by (cases "notify (setters ?s1) (snapshot ?s1) (render_target ?s1) name v (live ?s1)")
  have t: "trigger_next name v s = ?s1\<lparr>live := subs, outputs := outputs ?s1 @ out\<rparr>"
    using n by (simp add: trigger_next_def Let_def)
  note sh = notify_shape[OF n, of src]
  show "handles (trigger_next name v s) = handles s" using sh by (simp add: t handles_def)
  show "pipes (trigger_next name v s) = pipes s" using sh by (simp add: t pipes_def)
  show "subscriptions (trigger_next name v s) = subscriptions s" by (simp add: t)
  show "registeredObservables (trigger_next name v s) = registeredObservables s" by (simp add: t)
  show "properties (trigger_next name v s) = properties s" by (simp add: t)
  show "component (trigger_next name v s) = component s" by (simp add: t)
  show "setters (trigger_next name v s) = set_cell name v (setters s)" by (simp add: t)
  show "observed src (outputs (trigger_next name v s)) = observed src (outputs s)"
    using sh by (simp add: t observed_append)
qed

lemma step_recorded:
  "handles s = subscriptions s \<Longrightarrow> handles (step bi s a) = subscriptions (step bi s a)"
proof (cases a)
  case Connected
  assume "handles s = subscriptions s"
  with on_connected_shape(1)[of s] show ?thesis using Connected by auto
next
  case Disconnected
  assume "handles s = subscriptions s"
  from on_disconnected_clears[OF this] show ?thesis using Disconnected by (simp add: handles_def)
next
  case (AttributeChanged attr nv)
  assume a: "handles s = subscriptions s"
  show ?thesis using a AttributeChanged
    by (auto simp: on_attributeChanged_def trigger_next_shape handles_def[of "s\<lparr>next_ref := _\<rparr>"]
        handles_def[of s] split: option.splits sum.splits)
next
  case (SetAttribute n v)
  assume "handles s = subscriptions s"
  then show ?thesis using SetAttribute by (simp add: set_attribute_def handles_def)
next
  case (SetProperty n v)
  assume "handles s = subscriptions s"
  then show ?thesis using SetProperty
    by (auto simp: set_property_def trigger_next_shape) (simp add: handles_def)
next
  case Update
  assume "handles s = subscriptions s"
  then show ?thesis using Update by (simp add: update_def handles_def)
next
  case (Emit src v)
  assume "handles s = subscriptions s"
  then show ?thesis using Emit by (simp add: emit_def handles_def)
next
  case (Subscribe obs)
  assume "handles s = subscriptions s"
  then show ?thesis using Subscribe by (simp add: subscribe_def handles_def)
next
  case (UseTemplate f)
  assume "handles s = subscriptions s"
  then show ?thesis using UseTemplate by (simp add: useTemplate_def subscribe_def handles_def)
qed

lemma run_recorded:
  "handles s = subscriptions s \<Longrightarrow> handles (run bi s acts) = subscriptions (run bi s acts)"
  unfolding run_def by (induction acts arbitrary: s) (auto simp: step_recorded)

lemma create_recorded:
  "create bi r n ps = Inr s0 \<Longrightarrow> handles s0 = subscriptions s0 \<and> live s0 = []"
  by (auto simp: create_def handles_def split: sum.splits)


lemma run_Cons: "run bi s (a # acts) = run bi (step bi s a) acts"
  by (simp add: run_def)

lemma run_append: "run bi s (xs @ ys) = run bi (run bi s xs) ys"
  by (simp add: run_def)

lemma run_Nil: "run bi s [] = s"
  by (simp add: run_def)

lemma trigger_next_idle: "live s = [] \<Longrightarrow> live (trigger_next name v s) = []"
  by (simp add: trigger_next_def Let_def)

lemma step_idle: "live s = [] \<Longrightarrow> a \<noteq> Connected \<Longrightarrow> live (step bi s a) = []"
  by (cases a)
    (auto simp: on_disconnected_def on_attributeChanged_def trigger_next_idle set_attribute_def
      set_property_def update_def emit_def subscribe_def useTemplate_def
      split: option.splits sum.splits)


lemma connected_Cons:
  "connected c (a # acts)
     = connected (case a of Connected \<Rightarrow> True | Disconnected \<Rightarrow> False | _ \<Rightarrow> c) acts"
  by (cases a) simp_all

lemma step_stays_idle:
  assumes "handles s = subscriptions s" and "\<not> c \<longrightarrow> live s = []"
    and "\<not> (case a of Connected \<Rightarrow> True | Disconnected \<Rightarrow> False | _ \<Rightarrow> c)"
  shows "live (step bi s a) = []"
proof (cases "a = Disconnected")
  case True
  then show ?thesis using on_disconnected_clears[OF assms(1)] by simp
next
  case False
  with assms(3) have "a \<noteq> Connected" "\<not> c" by (cases a; simp)+
  with assms(2) show ?thesis by (simp add: step_idle)
qed

lemma run_idle:
  "handles s = subscriptions s \<Longrightarrow> (\<not> c \<longrightarrow> live s = []) \<Longrightarrow> \<not> connected c acts \<Longrightarrow>
   live (run bi s acts) = []"
proof (induction acts arbitrary: s c)
  case Nil
  then show ?case by (simp add: run_Nil)
next
  case (Cons a acts)
  let ?c = "case a of Connected \<Rightarrow> True | Disconnected \<Rightarrow> False | _ \<Rightarrow> c"
  have rec: "handles (step bi s a) = subscriptions (step bi s a)"
    using Cons.prems(1) by (rule step_recorded)
  have nc: "\<not> connected ?c acts" using Cons.prems(3) by (simp add: connected_Cons)
  have "\<not> ?c \<longrightarrow> live (step bi s a) = []"
    using step_stays_idle[OF Cons.prems(1,2)] by blast
  from Cons.IH[OF rec this nc] show ?case by (simp add: run_Cons)
qed


lemma update_idle: "live s = [] \<Longrightarrow> update s = s"
  by (simp add: update_def)

lemma emit_idle: "live s = [] \<Longrightarrow> emit src v s = s"
  by (simp add: emit_def)


lemma filter_concat_replicate:
  "length (filter P (concat (replicate k xs))) = k * length (filter P xs)"
  by (induction k) auto

lemma connects_shape:
  "handles s = subscriptions s \<Longrightarrow>
   pipes (run bi s (replicate k Connected)) = pipes s @ concat (replicate k (registeredObservables s))
   \<and> registeredObservables (run bi s (replicate k Connected)) = registeredObservables s
   \<and> handles (run bi s (replicate k Connected)) = subscriptions (run bi s (replicate k Connected))
   \<and> length (subscriptions (run bi s (replicate k Connected)))
       = length (subscriptions s) + k * length (registeredObservables s)"
proof (induction k arbitrary: s)
  case 0
  then show ?case by (simp add: run_Nil)
next
  case (Suc k)
  have rec: "handles (on_connected s) = subscriptions (on_connected s)"
    using step_recorded[OF Suc.prems, of bi Connected] by simp
  have len: "length (subscriptions (on_connected s))
      = length (subscriptions s) + length (registeredObservables s)"
  proof -
    have "length (handles (on_connected s)) = length (pipes (on_connected s))"
      by (simp add: handles_def pipes_def)
    moreover have "length (handles s) = length (pipes s)" by (simp add: handles_def pipes_def)
    ultimately show ?thesis using rec Suc.prems on_connected_shape(2)[of s] by simp
  qed
  from Suc.IH[OF rec] len show ?case
    by (simp add: run_Cons on_connected_shape(2,3))
qed

lemma emit_concat:
  "concat (map (\<lambda>(h, p, st). case p of
            External src' \<Rightarrow> if src' = src then [Observed src v] else []
          | Template f \<Rightarrow> []) subs)
      = replicate (length (filter ((=) (External src)) (map (\<lambda>(h, p, st). p) subs))) (Observed src v)"
  by (induction subs) (auto split: pipeline.splits)

lemma emit_count:
  "emit src v s = s\<lparr>outputs := outputs s
      @ replicate (length (filter ((=) (External src)) (pipes s))) (Observed src v)\<rparr>"
  unfolding emit_def pipes_def emit_concat ..


lemma update_outputs:
  "outputs (update s)
     = outputs s @ map (\<lambda>f. Rendered (f (snapshot s)) (render_target s)) (templates (pipes s))"
proof -
  have "concat (map (\<lambda>(h, p, st). case p of
            Template f \<Rightarrow> [Rendered (f snap) tg] | External src \<Rightarrow> []) subs)
      = map (\<lambda>f. Rendered (f snap) tg) (templates (map (\<lambda>(h, p, st). p) subs))"
    for subs :: "(nat \<times> 'a pipeline \<times> (string \<rightharpoonup> jsval)) list" and snap tg
    by (induction subs) (auto split: pipeline.splits)
  then show ?thesis unfolding update_def pipes_def by simp
qed







subsection \<open>Connect and disconnect\<close>



text \<open>
  C9.  After \<open>create\<close> and any run of events, \<open>k\<close> connect signals in a row open \<open>k\<close> further
  subscriptions to every registered observable and record each of them (there were none
  open if the last lifecycle signal was not a connect); an event of a source then reaches
  one subscription per connect and registration of that source, so its side effects run
  that many times; and one disconnect signal closes them all.
\<close>

theorem C9_connect_is_not_idempotent:
  assumes "create bi r n ps = Inr s0"
  shows "(let s = run bi s0 acts; s' = run bi s (replicate k Connected) in
        pipes s' = pipes s @ concat (replicate k (registeredObservables s))
      \<and> (\<not> connected False acts \<longrightarrow> pipes s = [])
      \<and> length (subscriptions s')
          = length (subscriptions s) + k * length (registeredObservables s)
      \<and> outputs (emit src v s')
          = outputs s' @ replicate (length (filter ((=) (External src)) (pipes s))
                + k * length (filter ((=) (External src)) (registeredObservables s)))
              (Observed src v)
      \<and> live (on_disconnected s') = [] \<and> subscriptions (on_disconnected s') = [])"
proof -
  define s where "s = run bi s0 acts"
  define s' where "s' = run bi s (replicate k Connected)"
  from create_recorded[OF assms] have r0: "handles s0 = subscriptions s0" and i0: "live s0 = []"
    by auto
  have rec: "handles s = subscriptions s" unfolding s_def using r0 by (rule run_recorded)
  note sh = connects_shape[OF rec, of bi k, folded s'_def]
  have 1: "pipes s' = pipes s @ concat (replicate k (registeredObservables s))" using sh by simp
  have 2: "pipes s = []" if "\<not> connected False acts"
    using run_idle[OF r0 _ that, of bi] i0 by (simp add: s_def pipes_def)
  have 3: "length (subscriptions s')
          = length (subscriptions s) + k * length (registeredObservables s)" using sh by simp
  have 4: "outputs (emit src v s')
          = outputs s' @ replicate (length (filter ((=) (External src)) (pipes s))
                + k * length (filter ((=) (External src)) (registeredObservables s)))
              (Observed src v)"
    by (simp add: emit_count 1 filter_concat_replicate)
  have "handles s' = subscriptions s'" using sh by simp
  note 5 = on_disconnected_clears[OF this]
  show ?thesis unfolding Let_def s_def[symmetric] s'_def[symmetric] using 1 2 3 4 5 by blast
qed

text \<open>
  Three connect signals in a row: one event of the registered source is received three
  times, and one disconnect signal leaves nothing subscribed.
\<close>

theorem C9_connect_is_not_idempotent_witness:
  "create inert 0 host123 schema_abc = Inr (created_abc :: unit hyperplane)
   \<and> \<not> connected False [Subscribe [External 7 :: unit pipeline]]
   \<and> outputs (run inert (created_abc :: unit hyperplane)
        [Subscribe [External 7], Connected, Connected, Connected, Emit 7 (JNum (Fin 2))])
      = [Observed 7 (JNum (Fin 2)), Observed 7 (JNum (Fin 2)), Observed 7 (JNum (Fin 2))]
   \<and> live (run inert (created_abc :: unit hyperplane)
        [Subscribe [External 7], Connected, Connected, Connected, Disconnected]) = []"
proof -
  have c: "create inert 0 host123 schema_abc = Inr (created_abc :: unit hyperplane)"
    by (rule create_abc)
  have nc: "\<not> connected False [Subscribe [External 7 :: unit pipeline]]" by simp
  define s :: "unit hyperplane" where "s = run inert created_abc [Subscribe [External 7]]"
  define s' where "s' = run inert s (replicate 3 Connected)"
  have s: "registeredObservables s = [External 7]" "outputs s = []"
    by (simp_all add: s_def run_def subscribe_def created_abc_def)
  have o: "outputs s' = []"
    by (simp add: s'_def s_def run_def subscribe_def created_abc_def numeral_3_eq_3
        on_connected_def observable_subscribe_def)
  from C9_connect_is_not_idempotent[OF c, of "[Subscribe [External 7]]" 3 7 "JNum (Fin 2)"] nc
  have "outputs (emit 7 (JNum (Fin 2)) s') = outputs s' @ replicate 3 (Observed 7 (JNum (Fin 2)))"
    and "live (on_disconnected s') = []"
    by (simp_all add: Let_def s_def[symmetric] s'_def[symmetric] s)
  then have "outputs (run inert s' [Emit 7 (JNum (Fin 2))])
      = [Observed 7 (JNum (Fin 2)), Observed 7 (JNum (Fin 2)), Observed 7 (JNum (Fin 2))]"
    and "live (run inert s' [Disconnected]) = []"
    by (simp_all add: run_def o numeral_3_eq_3)
  then show ?thesis using c nc
    by (simp add: s'_def s_def run_def numeral_3_eq_3)
qed

text \<open>
  C10.  After \<open>create\<close> and any run of events whose last lifecycle signal is not a connect
  (none yet, or a disconnect), the manual update trigger changes nothing at all: neither
  the template nor the renderer is called, and since the state is the same the update is
  not kept for later either, whatever follows.
\<close>

theorem C10_update_while_disconnected_is_dropped:
  "create bi r n ps = Inr s0 \<Longrightarrow> \<not> connected False acts \<Longrightarrow>
   step bi (run bi s0 acts) Update = run bi s0 acts
   \<and> run bi s0 (acts @ Update # later) = run bi s0 (acts @ later)"
proof -
  assume c: "create bi r n ps = Inr s0" and nc: "\<not> connected False acts"
  from create_recorded[OF c] have "handles s0 = subscriptions s0" "live s0 = []" by auto
  from run_idle[OF this(1) _ nc, of bi] this(2) have "live (run bi s0 acts) = []" by simp
  then have "step bi (run bi s0 acts) Update = run bi s0 acts" by (simp add: update_idle)
  then show ?thesis by (simp add: run_append run_Cons)
qed

text \<open>
  A template is bound, the host connects, a property changes and the host disconnects:
  the update trigger then leaves the state as it is.
\<close>

theorem C10_update_while_disconnected_is_dropped_witness:
  "create inert 0 host123 schema_abc = Inr (created_abc :: (string \<times> jsval) list hyperplane)
   \<and> \<not> connected False
        [UseTemplate id, Connected, SetProperty ''a'' (JNum (Fin 100)), Disconnected]
   \<and> step inert (run inert created_abc
          [UseTemplate id, Connected, SetProperty ''a'' (JNum (Fin 100)), Disconnected]) Update
      = run inert created_abc
          [UseTemplate id, Connected, SetProperty ''a'' (JNum (Fin 100)), Disconnected]"
proof -
  have c: "create inert 0 host123 schema_abc
      = Inr (created_abc :: (string \<times> jsval) list hyperplane)"
    by (rule create_abc)
  have nc: "\<not> connected False
      [UseTemplate id, Connected, SetProperty ''a'' (JNum (Fin 100)), Disconnected]"
    by simp
  from C10_update_while_disconnected_is_dropped[OF c nc, of "[]"] c nc show ?thesis by simp
qed

section \<open>The template binder\<close>

lemma set_cell_keys: "map fst (set_cell name v ts) = map fst ts"
  by (induction ts) (auto simp: set_cell_def)

lemma map_of_set_cell:
  "map_of (set_cell name v ts) k
     = (if k = name then map_option (\<lambda>(cur, config). (v, config)) (map_of ts k) else map_of ts k)"
  by (induction ts) (auto simp: set_cell_def)

lemma set_cell_current:
  "map_of ts name \<noteq> None \<Longrightarrow> current (set_cell name v ts) name = Some v"
  by (auto simp: current_def map_of_set_cell)

lemma step_installed: "installed ps sh s \<Longrightarrow> installed ps sh (step bi s a)"
  by (cases a)
    (auto simp: installed_def on_connected_shape on_disconnected_def on_attributeChanged_def
      trigger_next_shape set_cell_keys set_attribute_def set_property_def update_def emit_def
      subscribe_def useTemplate_def split: option.splits sum.splits)

lemma run_installed: "installed ps sh s \<Longrightarrow> installed ps sh (run bi s acts)"
  unfolding run_def by (induction acts arbitrary: s) (auto simp: step_installed)

lemma create_installed: "create bi r n ps = Inr s0 \<Longrightarrow> installed ps (shadowRoot n) s0"
  by (auto simp: create_def installed_def createPropertiesDescriptors_keys split: sum.splits)

lemma snapshot_cells:
  assumes "installed ps sh s" and "distinct (map fst ps)"
  shows "snapshot s = cells (setters s)"
proof -
  have d: "distinct (map fst (setters s))" using assms by (simp add: installed_def)
  have "map (\<lambda>key. (key, node_get ts n key)) (map fst ts) = cells ts"
    if "distinct (map fst ts)" for ts n
    using that
  proof (induction ts)
    case Nil
    show ?case by (simp add: cells_def)
  next
    case (Cons e ts)
    obtain k cur cfg where e: "e = (k, cur, cfg)" by (cases e)
    have "map (\<lambda>key. (key, node_get (e # ts) n key)) (map fst ts)
        = map (\<lambda>key. (key, node_get ts n key)) (map fst ts)"
      using Cons.prems by (auto simp: e node_get_def)
    with Cons show ?case by (simp add: e cells_def node_get_def)
  qed
  from this[OF d, of "component s"]
  have "map (\<lambda>key. (key, node_get (setters s) (component s) key)) (map fst (setters s))
      = cells (setters s)" .
  moreover have "properties s = ps" "map fst (setters s) = map fst ps"
    using assms(1) by (simp_all add: installed_def)
  ultimately show ?thesis by (simp only: snapshot_def mapProperties_def)
qed

lemma notify_renders:
  "snd (notify ts snap tg name v subs)
     = concat (map (\<lambda>(h, p, st). case p of
         Template f \<Rightarrow> map (\<lambda>ev. Rendered (f snap) tg) (fst (listener_next ts st name v))
       | External src \<Rightarrow> []) subs)"
  by (induction ts snap tg name v subs rule: notify.induct) (auto split: prod.splits)

lemma trigger_next_outputs:
  "outputs (trigger_next name v s)
     = outputs s @ renders_on_write (trigger_next name v s) name v (live s)"
proof -
  let ?s1 = "s\<lparr>setters := set_cell name v (setters s)\<rparr>"
  obtain subs out where n: "notify (setters ?s1) (snapshot ?s1) (render_target ?s1) name v (live ?s1) = (subs, out)"
    by (cases "notify (setters ?s1) (snapshot ?s1) (render_target ?s1) name v (live ?s1)")
  have t: "trigger_next name v s = ?s1\<lparr>live := subs, outputs := outputs ?s1 @ out\<rparr>"
    using n by (simp add: trigger_next_def Let_def)
  have snap: "snapshot (trigger_next name v s) = snapshot ?s1"
    and tg: "render_target (trigger_next name v s) = render_target ?s1"
    and st: "setters (trigger_next name v s) = setters ?s1"
    by (simp_all add: t snapshot_def render_target_def)
  have "out = snd (notify (setters ?s1) (snapshot ?s1) (render_target ?s1) name v (live ?s1))"
    using n by simp
  then have "out = renders_on_write (trigger_next name v s) name v (live s)"
    unfolding notify_renders renders_on_write_def snap tg st by simp
  then show ?thesis by (simp add: t)
qed

lemma step_keeps_open: "a \<noteq> Disconnected \<Longrightarrow> set (pipes s) \<subseteq> set (pipes (step bi s a))"
proof (cases a)
  case Connected
  then show ?thesis by (simp add: on_connected_shape(2))
next
  case Disconnected
  assume "a \<noteq> Disconnected"
  with Disconnected show ?thesis by simp
next
  case (AttributeChanged attr nv)
  have "pipes (s\<lparr>next_ref := x\<rparr>) = pipes s" for x by (simp add: pipes_def)
  then show ?thesis using AttributeChanged
    by (auto simp: on_attributeChanged_def trigger_next_shape(2) split: option.splits sum.splits)
next
  case (SetAttribute x y)
  then show ?thesis by (simp add: set_attribute_def pipes_def)
next
  case (SetProperty x y)
  have "pipes (s\<lparr>component := x\<rparr>) = pipes s" for x by (simp add: pipes_def)
  then show ?thesis using SetProperty by (auto simp: set_property_def trigger_next_shape(2))
next
  case Update
  then show ?thesis by (simp add: update_def pipes_def)
next
  case (Emit x y)
  then show ?thesis by (simp add: emit_def pipes_def)
next
  case (Subscribe x)
  then show ?thesis by (simp add: subscribe_def pipes_def)
next
  case (UseTemplate x)
  then show ?thesis by (simp add: useTemplate_def subscribe_def pipes_def)
qed

lemma run_keeps_open:
  "Disconnected \<notin> set acts \<Longrightarrow> set (pipes s) \<subseteq> set (pipes (run bi s acts))"
proof (induction acts arbitrary: s)
  case Nil
  show ?case by (simp add: run_Nil)
next
  case (Cons a acts)
  then have "a \<noteq> Disconnected" "Disconnected \<notin> set acts" by auto
  from step_keeps_open[OF this(1), of s bi] Cons.IH[OF this(2), of "step bi s a"]
  show ?case by (auto simp: run_Cons)
qed

lemma templates_mem: "f \<in> set (templates ps) \<longleftrightarrow> Template f \<in> set ps"
  by (induction ps rule: templates.induct) auto

lemma open_after_connect:
  assumes "Template f \<in> set (registeredObservables (run bi s0 before))"
    and "Disconnected \<notin> set during"
  shows "f \<in> set (templates (pipes (run bi s0 (before @ Connected # during))))"
proof -
  let ?s = "run bi s0 before"
  have "Template f \<in> set (pipes (on_connected ?s))"
    using assms(1) by (simp add: on_connected_shape(2))
  with run_keeps_open[OF assms(2), of "on_connected ?s" bi]
  have "Template f \<in> set (pipes (run bi (on_connected ?s) during))" by auto
  then show ?thesis by (simp add: templates_mem run_append run_Cons)
qed

text \<open>
  C7, as amended.  After \<open>create\<close> of a schema with distinct names: a template bound before
  a connect signal has its pipeline open from that signal until the next disconnect
  signal.  After any run of events: the snapshot names every schema property and nothing
  else, in order, each with the value of its cell, which after a write to it is the value
  written; the render target is the shadow root if the host has one, else the host.  The
  update trigger makes every open template pipeline call the renderer once with its
  template's result on that snapshot and that target, and a write to a schema property
  makes every open template pipeline do so once per change event it gets, with the
  snapshot taken after the write.
\<close>

theorem C7_template_renders_full_snapshot:
  assumes "create bi r n ps = Inr s0" and "distinct (map fst ps)"
  shows "(Template f \<in> set (registeredObservables (run bi s0 before))
            \<and> Disconnected \<notin> set during \<longrightarrow>
          f \<in> set (templates (pipes (run bi s0 (before @ Connected # during)))))
    \<and> (let s = run bi s0 acts in
      map fst (snapshot s) = map fst ps
    \<and> snapshot s = cells (setters s)
    \<and> render_target s = (if shadowRoot n then ShadowRoot else Host)
    \<and> outputs (update s)
        = outputs s @ map (\<lambda>f. Rendered (f (snapshot s)) (render_target s)) (templates (pipes s))
    \<and> (key \<in> set (map fst ps) \<longrightarrow>
         set_property key v s = trigger_next key v s
       \<and> current (setters (set_property key v s)) key = Some v
       \<and> outputs (set_property key v s)
           = outputs s @ renders_on_write (set_property key v s) key v (live s)))"
proof -
  define s where "s = run bi s0 acts"
  have inst: "installed ps (shadowRoot n) s"
    unfolding s_def using create_installed[OF assms(1)] by (rule run_installed)
  have 1: "map fst (snapshot s) = map fst ps"
    using inst by (simp add: snapshot_def mapProperties_def installed_def o_def)
  have 2: "snapshot s = cells (setters s)" using inst assms(2) by (rule snapshot_cells)
  have 3: "render_target s = (if shadowRoot n then ShadowRoot else Host)"
    using inst by (simp add: render_target_def installed_def)
  have 5: "set_property key v s = trigger_next key v s
       \<and> current (setters (set_property key v s)) key = Some v
       \<and> outputs (set_property key v s)
           = outputs s @ renders_on_write (set_property key v s) key v (live s)"
    if "key \<in> set (map fst ps)"
  proof -
    from that inst have "key \<in> set (map fst (setters s))" by (simp add: installed_def)
    then have m: "map_of (setters s) key \<noteq> None" by (simp add: map_of_eq_None_iff)
    then have e: "set_property key v s = trigger_next key v s" by (simp add: set_property_def)
    show ?thesis unfolding e
      using m by (simp add: trigger_next_shape(7) set_cell_current trigger_next_outputs)
  qed
  have 0: "Template f \<in> set (registeredObservables (run bi s0 before))
            \<and> Disconnected \<notin> set during \<longrightarrow>
          f \<in> set (templates (pipes (run bi s0 (before @ Connected # during))))"
    using open_after_connect[of f bi s0 before during] by blast
  show ?thesis unfolding Let_def s_def[symmetric] using 0 1 2 3 5 update_outputs[of s] by blast
qed

lemmas eval_defs = run_def useTemplate_def subscribe_def on_connected_def on_disconnected_def
  observable_subscribe_def property_pipe_def run_effects_def snapshot_def mapProperties_def
  node_get_def render_target_def set_property_def trigger_next_def set_cell_def
  listener_next_def update_def created_abc_def host123_def schema_abc_def prop'_def
  voidProp_def no_options_def

text \<open>
  The repository's test of \<open>useTemplate\<close>: on connect the template is rendered once per
  property, from \<open>a = 1, b = 2, c = 3\<close>; the write \<open>a = 100\<close> renders \<open>a = 100, b = 2,
  c = 3\<close>, and so does an update after it.
\<close>

theorem C7_template_renders_full_snapshot_witness:
  "create inert 0 host123 schema_abc = Inr (created_abc :: (string \<times> jsval) list hyperplane)
   \<and> distinct (map fst schema_abc)
   \<and> Template id \<in> set (registeredObservables
         (run inert (created_abc :: (string \<times> jsval) list hyperplane) [UseTemplate id]))
   \<and> id \<in> set (templates (pipes (run inert (created_abc :: (string \<times> jsval) list hyperplane)
         [UseTemplate id, Connected, SetProperty ''a'' (JNum (Fin 100))])))
   \<and> map fst (snapshot (run inert (created_abc :: (string \<times> jsval) list hyperplane)
         [UseTemplate id, Connected, SetProperty ''a'' (JNum (Fin 100)), Update]))
       = [''a'', ''b'', ''c'']
   \<and> rendered (outputs (run inert created_abc
        [UseTemplate id, Connected, SetProperty ''a'' (JNum (Fin 100)), Update]))
     = [([(''a'', JNum (Fin 1)), (''b'', JNum (Fin 2)), (''c'', JNum (Fin 3))], Host),
        ([(''a'', JNum (Fin 1)), (''b'', JNum (Fin 2)), (''c'', JNum (Fin 3))], Host),
        ([(''a'', JNum (Fin 1)), (''b'', JNum (Fin 2)), (''c'', JNum (Fin 3))], Host),
        ([(''a'', JNum (Fin 100)), (''b'', JNum (Fin 2)), (''c'', JNum (Fin 3))], Host),
        ([(''a'', JNum (Fin 100)), (''b'', JNum (Fin 2)), (''c'', JNum (Fin 3))], Host)]"
proof -
  have c: "create inert 0 host123 schema_abc
      = Inr (created_abc :: (string \<times> jsval) list hyperplane)"
    by (rule create_abc)
  have d: "distinct (map fst schema_abc)" by (simp add: schema_abc_def)
  have b: "Template id \<in> set (registeredObservables
         (run inert (created_abc :: (string \<times> jsval) list hyperplane) [UseTemplate id]))"
    by (simp add: run_def useTemplate_def subscribe_def created_abc_def)
  have nd: "Disconnected \<notin> set [SetProperty ''a'' (JNum (Fin 100)) :: (string \<times> jsval) list action]"
    by simp
  note t = C7_template_renders_full_snapshot[OF c d,
      of id "[UseTemplate id]" "[SetProperty ''a'' (JNum (Fin 100))]"
      "[UseTemplate id, Connected, SetProperty ''a'' (JNum (Fin 100)), Update]"
      "''a''" "JNum (Fin 100)"]
  from t b nd
  have o: "id \<in> set (templates (pipes (run inert (created_abc :: (string \<times> jsval) list hyperplane)
         ([UseTemplate id] @ Connected # [SetProperty ''a'' (JNum (Fin 100))]))))"
    by blast
  from t
  have "map fst (snapshot (run inert (created_abc :: (string \<times> jsval) list hyperplane)
         [UseTemplate id, Connected, SetProperty ''a'' (JNum (Fin 100)), Update]))
       = map fst schema_abc"
    unfolding Let_def by blast
  then have k: "map fst (snapshot (run inert (created_abc :: (string \<times> jsval) list hyperplane)
         [UseTemplate id, Connected, SetProperty ''a'' (JNum (Fin 100)), Update]))
       = [''a'', ''b'', ''c'']"
    by (simp add: Let_def schema_abc_def)
  have r: "rendered (outputs (run inert (created_abc :: (string \<times> jsval) list hyperplane)
        [UseTemplate id, Connected, SetProperty ''a'' (JNum (Fin 100)), Update]))
     = [([(''a'', JNum (Fin 1)), (''b'', JNum (Fin 2)), (''c'', JNum (Fin 3))], Host),
        ([(''a'', JNum (Fin 1)), (''b'', JNum (Fin 2)), (''c'', JNum (Fin 3))], Host),
        ([(''a'', JNum (Fin 1)), (''b'', JNum (Fin 2)), (''c'', JNum (Fin 3))], Host),
        ([(''a'', JNum (Fin 100)), (''b'', JNum (Fin 2)), (''c'', JNum (Fin 3))], Host),
        ([(''a'', JNum (Fin 100)), (''b'', JNum (Fin 2)), (''c'', JNum (Fin 3))], Host)]"
    by (simp add: eval_defs)
  from c d b o k r show ?thesis by simp
qed

text \<open>
  The claim without the proviso fails: the host is connected, a template is bound, a
  property changes and the update trigger is called, and the renderer is never called.
\<close>

theorem C7_template_bound_after_connect_is_not_rendered:
  "connected False [Connected, UseTemplate (id :: (string \<times> jsval) list \<Rightarrow> (string \<times> jsval) list)]
   \<and> outputs (run inert (created_abc :: (string \<times> jsval) list hyperplane)
        [Connected, UseTemplate id, SetProperty ''a'' (JNum (Fin 100)), Update]) = []"
  by (simp add: eval_defs)

section \<open>The attribute-change listener\<close>

lemma json_of_string_12: "json_of_string ''12'' = Some (JsNum 12)"
  by code_simp

text \<open>
  C3.  An attribute-change notification is meant to find its property by own name, else
  by explicit attribute name, and to write the new text decoded by that property's
  definition.  In the source the search by attribute name is never reached, and
  \<open>parseAttribute\<close> is handed the raw new value in place of the definition.  On the schema
  \<open>{foo: prop('foo', {attributeName: 'bar'}), s: prop('a')}\<close>: the change of the attribute
  \<open>bar\<close> is ignored although \<open>foo\<close> is bound to it; the change of \<open>s\<close> to the text \<open>12\<close>
  writes the number 12, read as JSON, where the definition of \<open>s\<close> (a string) decodes the
  string \<open>12\<close>; and the removal of \<open>s\<close> throws a \<open>TypeError\<close>.
\<close>

theorem C3_handler_ignores_attribute_names_and_definitions:
  "create bi 0 bare foo_schema = Inr created_foo
   \<and> on_attributeChanged bi ''bar'' (Some ''x'') (set_attribute ''bar'' (Some ''x'') created_foo)
       = Inr (set_attribute ''bar'' (Some ''x'') created_foo)
   \<and> map_of (setters (set_attribute ''bar'' (Some ''x'') created_foo)) ''foo''
       = Some (JStr ''foo'', prop' (JStr ''foo'') (no_options\<lparr>attributeName := Some ''bar''\<rparr>))
   \<and> (case on_attributeChanged bi ''s'' (Some ''12'') (set_attribute ''s'' (Some ''12'') created_foo) of
         Inl e \<Rightarrow> None
       | Inr s' \<Rightarrow> current (setters s') ''s'') = Some (JNum (Fin 12))
   \<and> parseAttribute bi r (component (set_attribute ''s'' (Some ''12'') created_foo)) ''s''
         (prop' (JStr ''a'') no_options) = Inr (JStr ''12'')
   \<and> on_attributeChanged bi ''s'' None (set_attribute ''s'' None created_foo) = Inl TypeError"
proof -
  have 1: "create bi 0 bare foo_schema = Inr created_foo"
    by (simp add: create_def created_foo_def foo_schema_def bare_def parseAttribute_def
        getAttribute_def attribute_name_def resolve_converter_def prop'_def no_options_def)
  have 2: "on_attributeChanged bi ''bar'' (Some ''x'') (set_attribute ''bar'' (Some ''x'') created_foo)
       = Inr (set_attribute ''bar'' (Some ''x'') created_foo)"
    by (simp add: on_attributeChanged_def set_attribute_def created_foo_def)
  have 3: "map_of (setters (set_attribute ''bar'' (Some ''x'') created_foo)) ''foo''
       = Some (JStr ''foo'', prop' (JStr ''foo'') (no_options\<lparr>attributeName := Some ''bar''\<rparr>))"
    by (simp add: set_attribute_def created_foo_def)
  have 4: "(case on_attributeChanged bi ''s'' (Some ''12'') (set_attribute ''s'' (Some ''12'') created_foo) of
         Inl e \<Rightarrow> None
       | Inr s' \<Rightarrow> current (setters s') ''s'') = Some (JNum (Fin 12))"
    by (simp add: on_attributeChanged_def set_attribute_def created_foo_def config_of_raw_def
        parseAttribute_def getAttribute_def hasAttribute_def attribute_name_def
        resolve_converter_def bare_def JSON_parse_def json_of_string_12 trigger_next_def
        set_cell_def current_def)
  have 5: "parseAttribute bi r (component (set_attribute ''s'' (Some ''12'') created_foo)) ''s''
         (prop' (JStr ''a'') no_options) = Inr (JStr ''12'')"
    by (simp add: set_attribute_def created_foo_def parseAttribute_def getAttribute_def
        hasAttribute_def attribute_name_def resolve_converter_def bare_def prop'_def
        no_options_def)
  have 6: "on_attributeChanged bi ''s'' None (set_attribute ''s'' None created_foo) = Inl TypeError"
    by (simp add: on_attributeChanged_def set_attribute_def created_foo_def config_of_raw_def)
  from 1 2 3 4 5 6 show ?thesis by blast
qed

end
